theory Spec2Isabelle
  imports Complex_Main
begin

section \<open>The LASSO notebook: penalty search over a pre-built solver\<close>

text \<open>
  The notebook \<^verbatim>\<open>week-5-lasso-assignment-1-opensource.ipynb\<close> is a Python 2 script
  run cell by cell in one kernel. Its penalty search is written in the code cells 19
  to 38; these are embedded here as transformers of the kernel's namespace. The code
  cells before them (2 to 17) read the CSV files, derive four columns and bind
  \<^verbatim>\<open>sales\<close>, \<^verbatim>\<open>model_all\<close>, \<^verbatim>\<open>testing\<close>, \<^verbatim>\<open>training\<close>,
  \<^verbatim>\<open>validation\<close> and \<^verbatim>\<open>all_features\<close>; the embedding takes the last four
  as it finds them in the namespace. (Cells 10 and 39, which spell out the feature
  list, are stored with a line break right after the \<^verbatim>\<open>=\<close>.)

  Numbers: a float64 value of numpy is modelled by the real number it denotes.
  \<^verbatim>\<open>np.linspace\<close> rounds every intermediate result to float64, as numpy does.
  The power of \<^verbatim>\<open>np.logspace\<close> and the sums of squared residuals are taken
  exactly; their rounding is not represented. The solver
  (\<^verbatim>\<open>sklearn.linear_model.Lasso\<close>) is a library outside the repository and is a
  parameter of every definition that calls it.
\<close>

subsection \<open>Exceptions, data frames, fitted models\<close>

datatype error = NameError string | KeyError string | IndexError | ValueError

fun bindE :: "error + 'a \<Rightarrow> ('a \<Rightarrow> error + 'b) \<Rightarrow> error + 'b" where
  "bindE (Inl e) f = Inl e"
| "bindE (Inr x) f = f x"

text \<open>Reading a global name that no cell has bound raises \<^verbatim>\<open>NameError\<close>.\<close>

fun lookup :: "string \<Rightarrow> 'a option \<Rightarrow> error + 'a" where
  "lookup x None = Inl (NameError x)"
| "lookup x (Some v) = Inr v"

text \<open>
  A pandas data frame, by columns. \<^verbatim>\<open>df['price']\<close> is \<open>column\<close>,
  \<^verbatim>\<open>df[all_features]\<close> is \<open>columns\<close>; both build a new object and raise
  \<^verbatim>\<open>KeyError\<close> for a missing label.
\<close>

type_synonym frame = "string \<rightharpoonup> real list"

definition column :: "frame \<Rightarrow> string \<Rightarrow> error + real list" where
  "column df c = (case df c of None \<Rightarrow> Inl (KeyError c) | Some xs \<Rightarrow> Inr xs)"

fun columns :: "frame \<Rightarrow> string list \<Rightarrow> error + real list list" where
  "columns df [] = Inr []"
| "columns df (c # cs) =
     bindE (column df c) (\<lambda>x. bindE (columns df cs) (\<lambda>xs. Inr (x # xs)))"

text \<open>
  A \<^verbatim>\<open>Lasso(alpha=..., normalize=True)\<close> object after \<^verbatim>\<open>fit\<close>; the fields
  \<open>coef\<close> and \<open>intercept\<close> are its attributes \<^verbatim>\<open>coef_\<close> and \<^verbatim>\<open>intercept_\<close>.
\<close>

record lasso =
  alpha :: real
  coef :: "real list"
  intercept :: real

text \<open>
  The external capability: \<open>fit penalty features target\<close> gives the coefficients and
  the intercept, \<open>predict coefficients intercept features\<close> the predictions. Either
  may raise; the exception then leaves the cell that made the call.
\<close>

record solver =
  fit :: "real \<Rightarrow> real list list \<Rightarrow> real list \<Rightarrow> error + real list \<times> real"
  predict :: "real list \<Rightarrow> real \<Rightarrow> real list list \<Rightarrow> error + real list"

subsection \<open>numpy\<close>

text \<open>\<^verbatim>\<open>np.arange(a, b)\<close> on integers: \<open>a, a + 1, ..., b - 1\<close>.\<close>

definition arange :: "int \<Rightarrow> int \<Rightarrow> int list" where
  "arange a b = [a..b - 1]"

text \<open>
  IEEE 754 double precision. A nonzero float64 is \<open>m * 2 ^ (e - 52)\<close> with an
  integer \<open>m\<close> of 53 bits, \<open>2 ^ 52 \<le> \<bar>m\<bar> < 2 ^ 53\<close>. An arithmetic operation
  returns the exact result rounded to the nearest such number, a tie going to the
  even \<open>m\<close>: that is \<open>float64\<close>. Here \<open>floor_log2 n\<close> is the position of the
  leading bit of \<open>n\<close>, and \<open>exponent x\<close> is the \<open>e\<close> with
  \<open>2 ^ e \<le> \<bar>x\<bar> < 2 ^ (e + 1)\<close>. Overflow and subnormal numbers (magnitudes from
  \<open>2 ^ 1024\<close> on, or below \<open>2 ^ (- 1022)\<close>) are not represented; the nonzero
  numbers that \<^verbatim>\<open>np.linspace\<close> meets in the notebook have magnitudes between
  \<open>1 / 100\<close> and 206.
\<close>

definition round_half_even :: "real \<Rightarrow> int" where
  "round_half_even x =
     (let n = \<lfloor>x\<rfloor>; r = x - of_int n in
      if r < 1 / 2 then n else if 1 / 2 < r then n + 1 else if even n then n else n + 1)"

fun floor_log2 :: "nat \<Rightarrow> nat" where
  "floor_log2 n = (if n < 2 then 0 else Suc (floor_log2 (n div 2)))"

declare floor_log2.simps [simp del]

definition exponent :: "real \<Rightarrow> int" where
  "exponent x =
     (if 1 \<le> \<bar>x\<bar> then int (floor_log2 (nat \<lfloor>\<bar>x\<bar>\<rfloor>))
      else - int (floor_log2 (nat (\<lceil>1 / \<bar>x\<bar>\<rceil> - 1))) - 1)"

definition float64 :: "real \<Rightarrow> real" where
  "float64 x =
     (if x = 0 then 0
      else let u = 2 powi (exponent x - 52) in of_int (round_half_even (x / u)) * u)"

text \<open>
  \<^verbatim>\<open>np.linspace(start, stop, num)\<close> with the default \<^verbatim>\<open>endpoint=True\<close>, as
  numpy computes it: \<^verbatim>\<open>delta = stop - start\<close>, \<^verbatim>\<open>step = delta / (num - 1)\<close>,
  then \<^verbatim>\<open>y = arange(0, num) * step\<close> (or \<^verbatim>\<open>arange(0, num) / (num - 1) * delta\<close>
  when the step has rounded to zero), \<^verbatim>\<open>y += start\<close>, and at last
  \<^verbatim>\<open>y[-1] = stop\<close>. Every operation rounds to float64, so the samples between
  the endpoints are not the exact \<open>start + k * (stop - start) / (num - 1)\<close>.
\<close>

definition linspace :: "real \<Rightarrow> real \<Rightarrow> nat \<Rightarrow> real list" where
  "linspace start stop num =
     (let a = float64 start; b = float64 stop; delta = float64 (b - a) in
      if num = 0 then []
      else if num = 1 then [float64 (float64 (0 * delta) + a)]
      else
        let step = float64 (delta / real (num - 1));
            y = (\<lambda>k. if step = 0 then float64 (float64 (real k / real (num - 1)) * delta)
                     else float64 (real k * step))
        in map (\<lambda>k. float64 (y k + a)) [0..<num - 1] @ [b])"

text \<open>
  \<^verbatim>\<open>np.logspace(a, b, num)\<close> is \<^verbatim>\<open>10 ** np.linspace(a, b, num)\<close>; the power is
  taken exactly.
\<close>

definition logspace :: "real \<Rightarrow> real \<Rightarrow> nat \<Rightarrow> real list" where
  "logspace a b num = map (\<lambda>x. 10 powr x) (linspace a b num)"

definition count_nonzero :: "real list \<Rightarrow> int" where
  "count_nonzero xs = int (length (filter (\<lambda>x. x \<noteq> 0) xs))"

subsection \<open>The kernel's namespace\<close>

text \<open>
  What the cells print, and what a cell that ends in an expression displays, line by
  line (the values, not their formatting).
\<close>

datatype printed =
    RSS_line real real
  | Test_RSS real
  | Shown_count int
  | Shown_ints "int list"
  | Shown_reals "real list"
  | Pairs "(int \<times> int) list"
  | Fine_line real real int
  | Coefs "real list"

text \<open>
  One field for each global name the embedded cells bind or read; \<open>None\<close> is an
  unbound name. The variable \<^verbatim>\<open>i\<close> that the Python 2 list comprehensions of
  cell 30 leak is read nowhere and is not tracked.
\<close>

record kernel =
  training :: "frame option"
  validation :: "frame option"
  testing :: "frame option"
  all_features :: "string list option"
  l1_list :: "real list option"
  l1_penalty :: "real option"
  model :: "lasso option"
  predictions :: "real list option"
  RSS :: "real option"
  model10 :: "lasso option"
  max_nonzeros :: "int option"
  l1_penalty_values_min :: "int list option"
  l1_penalty_values_max :: "int list option"
  nonzeros_min :: "int list option"
  nonzeros_max :: "int list option"
  index :: "nat option"
  non_zeros :: "int option"
  l1_penalty_min :: "int option"
  l1_penalty_max :: "int option"
  l1_penalty_values :: "real list option"
  model154 :: "lasso option"
  out :: "printed list"

subsection \<open>The statements shared by the loops\<close>

text \<open>
  \<^verbatim>\<open>model = linear_model.Lasso(alpha=a, normalize=True)\<close>
  \<^verbatim>\<open>model.fit(training[all_features], training['price'])\<close>
\<close>

definition fit_training :: "solver \<Rightarrow> kernel \<Rightarrow> real \<Rightarrow> error + lasso" where
  "fit_training sv s a =
     bindE (lookup ''training'' (training s)) (\<lambda>tr.
     bindE (lookup ''all_features'' (all_features s)) (\<lambda>fs.
     bindE (columns tr fs) (\<lambda>X.
     bindE (column tr ''price'') (\<lambda>y.
     bindE (fit sv a X y) (\<lambda>(w, b).
       Inr \<lparr>alpha = a, coef = w, intercept = b\<rparr>)))))"

text \<open>\<^verbatim>\<open>predictions = model.predict(validation[all_features])\<close>\<close>

definition predict_validation :: "solver \<Rightarrow> kernel \<Rightarrow> lasso \<Rightarrow> error + real list" where
  "predict_validation sv s m =
     bindE (lookup ''validation'' (validation s)) (\<lambda>va.
     bindE (lookup ''all_features'' (all_features s)) (\<lambda>fs.
     bindE (columns va fs) (\<lambda>X.
       predict sv (coef m) (intercept m) X)))"

text \<open>
  \<^verbatim>\<open>predictions - df['price']\<close>, a numpy array minus a pandas column: the
  differences row by row when the lengths agree; an array of length one is
  broadcast over the column; every other pair of lengths raises \<^verbatim>\<open>ValueError\<close>
  (the result is stored under the index of the column).
\<close>

definition residuals :: "real list \<Rightarrow> real list \<Rightarrow> error + real list" where
  "residuals pr y =
     (if length pr = length y then Inr (map2 (-) pr y)
      else if length pr = 1 then Inr (map (\<lambda>t. hd pr - t) y)
      else Inl ValueError)"

text \<open>\<^verbatim>\<open>RSS = ((predictions - validation['price']) ** 2).sum()\<close>\<close>

definition rss :: "kernel \<Rightarrow> real list \<Rightarrow> error + real" where
  "rss s pr =
     bindE (lookup ''validation'' (validation s)) (\<lambda>va.
     bindE (column va ''price'') (\<lambda>y.
     bindE (residuals pr y) (\<lambda>d.
       Inr (sum_list (map (\<lambda>x. x\<^sup>2) d)))))"

text \<open>\<^verbatim>\<open>np.count_nonzero(model.coef_) + np.count_nonzero(model.intercept_)\<close>\<close>

definition nonzeros :: "lasso \<Rightarrow> int" where
  "nonzeros m = count_nonzero (coef m) + count_nonzero [intercept m]"

text \<open>
  The three statements with which the loops of cells 19 and 36 begin: fit on the
  training frame, predict on the validation frame, sum the squared residuals.
\<close>

definition fit_and_score :: "solver \<Rightarrow> kernel \<Rightarrow> real \<Rightarrow> error + lasso \<times> real list \<times> real" where
  "fit_and_score sv s p =
     bindE (fit_training sv s p) (\<lambda>m.
     bindE (predict_validation sv s m) (\<lambda>pr.
     bindE (rss s pr) (\<lambda>r. Inr (m, pr, r))))"

text \<open>A \<^verbatim>\<open>for\<close> loop over a sequence; an exception in the body ends it.\<close>

fun for_each :: "('a \<Rightarrow> kernel \<Rightarrow> error + kernel) \<Rightarrow> 'a list \<Rightarrow> kernel \<Rightarrow> error + kernel" where
  "for_each body [] s = Inr s"
| "for_each body (x # xs) s = bindE (body x s) (for_each body xs)"

subsection \<open>Cell 19: validation RSS over thirteen log-spaced penalties\<close>

definition body19 :: "solver \<Rightarrow> real \<Rightarrow> kernel \<Rightarrow> error + kernel" where
  "body19 sv p s =
     bindE (fit_and_score sv s p) (\<lambda>(m, pr, r).
       Inr (s\<lparr>l1_penalty := Some p, model := Some m, predictions := Some pr,
              RSS := Some r, out := out s @ [RSS_line r p]\<rparr>))"

definition scan19 :: "solver \<Rightarrow> real list \<Rightarrow> kernel \<Rightarrow> error + kernel" where
  "scan19 sv cands s = for_each (body19 sv) cands s"

definition cell19 :: "solver \<Rightarrow> kernel \<Rightarrow> error + kernel" where
  "cell19 sv s =
     (let s1 = s\<lparr>l1_list := Some (logspace 1 7 13)\<rparr> in
      bindE (lookup ''l1_list'' (l1_list s1)) (\<lambda>cands. scan19 sv cands s1))"

subsection \<open>Cells 21 and 23: the model at penalty 10 on the test frame\<close>

text \<open>
  The first four statements of cell 21: fit on the training frame, predict on the
  test frame, sum the squared residuals against the test prices.
\<close>

definition fit_and_test :: "solver \<Rightarrow> kernel \<Rightarrow> real \<Rightarrow> error + lasso \<times> real list \<times> real" where
  "fit_and_test sv s a =
     bindE (fit_training sv s a) (\<lambda>m.
     bindE (lookup ''testing'' (testing s)) (\<lambda>te.
     bindE (lookup ''all_features'' (all_features s)) (\<lambda>fs.
     bindE (columns te fs) (\<lambda>X.
     bindE (predict sv (coef m) (intercept m) X) (\<lambda>pr.
     bindE (column te ''price'') (\<lambda>y.
     bindE (residuals pr y) (\<lambda>d.
       Inr (m, pr, sum_list (map (\<lambda>x. x\<^sup>2) d)))))))))"

definition cell21 :: "solver \<Rightarrow> kernel \<Rightarrow> error + kernel" where
  "cell21 sv s =
     bindE (fit_and_test sv s 10) (\<lambda>(m, pr, r).
       Inr (s\<lparr>model10 := Some m, predictions := Some pr, RSS := Some r,
              out := out s @ [Test_RSS r]\<rparr>))"

definition cell23 :: "kernel \<Rightarrow> error + kernel" where
  "cell23 s =
     bindE (lookup ''model10'' (model10 s)) (\<lambda>m.
       Inr (s\<lparr>out := out s @ [Shown_count (nonzeros m)]\<rparr>))"

subsection \<open>Cells 26 to 33: the coarse scan and the bracket\<close>

definition cell26 :: "kernel \<Rightarrow> error + kernel" where
  "cell26 s = Inr (s\<lparr>max_nonzeros := Some 7\<rparr>)"

text \<open>
  Cells 28 and 29 display \<^verbatim>\<open>np.arange(100,102) + np.arange(2)\<close> and
  \<^verbatim>\<open>np.logspace(2.1, 2.4, num=20)\<close> and bind nothing.
\<close>

definition cell28 :: "kernel \<Rightarrow> error + kernel" where
  "cell28 s = Inr (s\<lparr>out := out s @ [Shown_ints (map2 (+) (arange 100 102) (arange 0 2))]\<rparr>)"

definition cell29 :: "kernel \<Rightarrow> error + kernel" where
  "cell29 s = Inr (s\<lparr>out := out s @ [Shown_reals (logspace 2.1 2.4 20)]\<rparr>)"

text \<open>
  The body of \<^verbatim>\<open>for index, l1_penalty in enumerate(l1_penalty_values_min)\<close>;
  the store \<^verbatim>\<open>nonzeros_min[index] = non_zeros\<close> raises \<^verbatim>\<open>IndexError\<close> past the
  end of the buffer.
\<close>

definition body30_min :: "solver \<Rightarrow> nat \<times> int \<Rightarrow> kernel \<Rightarrow> error + kernel" where
  "body30_min sv kp s =
     (case kp of (k, p) \<Rightarrow>
      bindE (fit_training sv s (of_int p)) (\<lambda>m.
      bindE (lookup ''nonzeros_min'' (nonzeros_min s)) (\<lambda>buf.
        if k < length buf
        then Inr (s\<lparr>index := Some k, l1_penalty := Some (of_int p), model := Some m,
                    non_zeros := Some (nonzeros m),
                    nonzeros_min := Some (buf[k := nonzeros m])\<rparr>)
        else Inl IndexError)))"

definition body30_max :: "solver \<Rightarrow> nat \<times> int \<Rightarrow> kernel \<Rightarrow> error + kernel" where
  "body30_max sv kp s =
     (case kp of (k, p) \<Rightarrow>
      bindE (fit_training sv s (of_int p)) (\<lambda>m.
      bindE (lookup ''nonzeros_max'' (nonzeros_max s)) (\<lambda>buf.
        if k < length buf
        then Inr (s\<lparr>index := Some k, l1_penalty := Some (of_int p), model := Some m,
                    non_zeros := Some (nonzeros m),
                    nonzeros_max := Some (buf[k := nonzeros m])\<rparr>)
        else Inl IndexError)))"

definition scan30_min :: "solver \<Rightarrow> int list \<Rightarrow> kernel \<Rightarrow> error + kernel" where
  "scan30_min sv cands s = for_each (body30_min sv) (List.enumerate 0 cands) s"

definition scan30_max :: "solver \<Rightarrow> int list \<Rightarrow> kernel \<Rightarrow> error + kernel" where
  "scan30_max sv cands s = for_each (body30_max sv) (List.enumerate 0 cands) s"

text \<open>
  Cell 30 sizes both buffers by \<^verbatim>\<open>len(l1_penalty_values)\<close>, a name that only
  cell 36 binds.
\<close>

definition cell30 :: "solver \<Rightarrow> kernel \<Rightarrow> error + kernel" where
  "cell30 sv s =
     (let s1 = s\<lparr>l1_penalty_values_min := Some (arange 150 158),
                  l1_penalty_values_max := Some (arange 201 210)\<rparr> in
      bindE (lookup ''l1_penalty_values'' (l1_penalty_values s1)) (\<lambda>vs.
      let s2 = s1\<lparr>nonzeros_min := Some (replicate (length vs) 0),
                   nonzeros_max := Some (replicate (length vs) 0)\<rparr> in
      bindE (lookup ''l1_penalty_values_min'' (l1_penalty_values_min s2)) (\<lambda>lo.
      bindE (scan30_min sv lo s2) (\<lambda>s3.
      bindE (lookup ''l1_penalty_values_max'' (l1_penalty_values_max s3)) (\<lambda>hi.
        scan30_max sv hi s3)))))"

text \<open>\<^verbatim>\<open>print zip(l1_penalty_values_min, nonzeros_min)\<close>: Python 2's \<^verbatim>\<open>zip\<close> stops
  at the shorter argument.\<close>

definition cell31 :: "kernel \<Rightarrow> error + kernel" where
  "cell31 s =
     bindE (lookup ''l1_penalty_values_min'' (l1_penalty_values_min s)) (\<lambda>ps.
     bindE (lookup ''nonzeros_min'' (nonzeros_min s)) (\<lambda>cs.
       Inr (s\<lparr>out := out s @ [Pairs (zip ps cs)]\<rparr>)))"

definition cell32 :: "kernel \<Rightarrow> error + kernel" where
  "cell32 s =
     bindE (lookup ''l1_penalty_values_max'' (l1_penalty_values_max s)) (\<lambda>ps.
     bindE (lookup ''nonzeros_max'' (nonzeros_max s)) (\<lambda>cs.
       Inr (s\<lparr>out := out s @ [Pairs (zip ps cs)]\<rparr>)))"

text \<open>The bracket is written down as two literals.\<close>

definition cell33 :: "kernel \<Rightarrow> error + kernel" where
  "cell33 s = Inr (s\<lparr>l1_penalty_min := Some 153, l1_penalty_max := Some 207\<rparr>)"

subsection \<open>Cells 36 and 38: the fine scan and the chosen model\<close>

definition body36 :: "solver \<Rightarrow> real \<Rightarrow> kernel \<Rightarrow> error + kernel" where
  "body36 sv p s =
     bindE (fit_and_score sv s p) (\<lambda>(m, pr, r).
       Inr (s\<lparr>l1_penalty := Some p, model := Some m, predictions := Some pr,
              RSS := Some r, non_zeros := Some (nonzeros m),
              out := out s @ [Fine_line p r (nonzeros m)]\<rparr>))"

definition scan36 :: "solver \<Rightarrow> real list \<Rightarrow> kernel \<Rightarrow> error + kernel" where
  "scan36 sv cands s = for_each (body36 sv) cands s"

definition cell36 :: "solver \<Rightarrow> kernel \<Rightarrow> error + kernel" where
  "cell36 sv s =
     (let s1 = s\<lparr>l1_penalty_values := Some (linspace 154 206 20)\<rparr> in
      bindE (lookup ''l1_penalty_values'' (l1_penalty_values s1)) (\<lambda>cands.
        scan36 sv cands s1))"

definition cell38 :: "solver \<Rightarrow> kernel \<Rightarrow> error + kernel" where
  "cell38 sv s =
     bindE (fit_training sv s 154) (\<lambda>m.
       Inr (s\<lparr>model154 := Some m, out := out s @ [Coefs (coef m)]\<rparr>))"

subsection \<open>Running cells\<close>

datatype cell =
  Cell19 | Cell21 | Cell23 | Cell26 | Cell28 | Cell29 | Cell30 | Cell31 | Cell32 | Cell33 |
  Cell36 | Cell38

fun exec :: "solver \<Rightarrow> cell \<Rightarrow> kernel \<Rightarrow> error + kernel" where
  "exec sv Cell19 s = cell19 sv s"
| "exec sv Cell21 s = cell21 sv s"
| "exec sv Cell23 s = cell23 s"
| "exec sv Cell26 s = cell26 s"
| "exec sv Cell28 s = cell28 s"
| "exec sv Cell29 s = cell29 s"
| "exec sv Cell30 s = cell30 sv s"
| "exec sv Cell31 s = cell31 s"
| "exec sv Cell32 s = cell32 s"
| "exec sv Cell33 s = cell33 s"
| "exec sv Cell36 s = cell36 sv s"
| "exec sv Cell38 s = cell38 sv s"

text \<open>Cells run in a given order; the run stops at the first exception.\<close>

definition run :: "solver \<Rightarrow> cell list \<Rightarrow> kernel \<Rightarrow> error + kernel" where
  "run sv cs s = for_each (exec sv) cs s"

text \<open>The embedded cells in the order of the document.\<close>

definition notebook :: "cell list" where
  "notebook =
     [Cell19, Cell21, Cell23, Cell26, Cell28, Cell29, Cell30, Cell31, Cell32, Cell33,
      Cell36, Cell38]"

text \<open>
  The cells of the two-phase search in the order of the document: the target count,
  two displays, the coarse scan, its two printouts, the bracket, the fine scan and
  the chosen model. (Cell 19 scans the log-spaced penalties without a target; cells
  21 and 23 score the model at penalty 10 on the test frame.)
\<close>

definition search :: "cell list" where
  "search = [Cell26, Cell28, Cell29, Cell30, Cell31, Cell32, Cell33, Cell36, Cell38]"

text \<open>The lines a run adds to the output.\<close>

definition printed_by :: "kernel \<Rightarrow> kernel \<Rightarrow> printed list" where
  "printed_by s s' = drop (length (out s)) (out s')"

subsection \<open>The inputs of the search\<close>

text \<open>
  What the scans of cells 19 and 36 read from the namespace: the training frame, the
  validation frame and the feature list. The candidate penalties and the target
  count are literals of the cells.
\<close>

definition inputs :: "kernel \<Rightarrow> frame option \<times> frame option \<times> string list option" where
  "inputs s = (training s, validation s, all_features s)"

text \<open>The inputs together with the test frame that cell 21 reads.\<close>

definition frames ::
  "kernel \<Rightarrow> (frame option \<times> frame option \<times> string list option) \<times> frame option" where
  "frames s = (inputs s, testing s)"

text \<open>What an invocation produces: the exception, or the lines it printed.\<close>

definition outcome :: "kernel \<Rightarrow> error + kernel \<Rightarrow> error + printed list" where
  "outcome s r = map_sum id (printed_by s) r"

text \<open>
  All that the cells other than 21 and 23 read from the namespace before assigning it
  themselves: the inputs, and the names of the coarse scan that cells 30 to 32 read.
\<close>

definition reads ::
  "kernel \<Rightarrow> (frame option \<times> frame option \<times> string list option) \<times>
     real list option \<times> int list option \<times> int list option \<times>
     int list option \<times> int list option" where
  "reads s = (inputs s, l1_penalty_values s, l1_penalty_values_min s,
              l1_penalty_values_max s, nonzeros_min s, nonzeros_max s)"

text \<open>
  Two invocations, from \<open>s1\<close> with result \<open>r1\<close> and from \<open>s2\<close> with result
  \<open>r2\<close>, agree up to a projection \<open>f\<close> of the namespace: both raise the same
  exception, or both complete, having printed the same lines, in namespaces with the
  same projection.
\<close>

definition agree ::
  "(kernel \<Rightarrow> 'a) \<Rightarrow> kernel \<Rightarrow> error + kernel \<Rightarrow> kernel \<Rightarrow> error + kernel \<Rightarrow> bool" where
  "agree f s1 r1 s2 r2 \<longleftrightarrow>
     (case r1 of
        Inl e \<Rightarrow> r2 = Inl e
      | Inr a \<Rightarrow> \<exists>b ls. r2 = Inr b \<and> f a = f b \<and> out a = out s1 @ ls \<and> out b = out s2 @ ls)"

subsection \<open>The outputs stored in the notebook\<close>

text \<open>
  The CSV files and the solver are not part of the repository; what the reference
  run produced is known from the outputs stored with cells 31, 32 and 36. The
  floats of cell 36 are printed by Python 2's \<^verbatim>\<open>str\<close>, that is, rounded to twelve
  significant digits.
\<close>

definition cell31_output :: "(int \<times> int) list" where
  "cell31_output =
     [(150, 8), (151, 8), (152, 8), (153, 8), (154, 7), (155, 7), (156, 7), (157, 7)]"

definition cell32_output :: "(int \<times> int) list" where
  "cell32_output =
     [(201, 7), (202, 7), (203, 7), (204, 7), (205, 7), (206, 7), (207, 6), (208, 6),
      (209, 6)]"

definition cell36_output :: "(real \<times> real \<times> int) list" where
  "cell36_output =
     [(154.0, 439830405618000, 7),
      (156.736842105, 440101738965000, 7),
      (159.473684211, 440379199789000, 7),
      (162.210526316, 440664156517000, 7),
      (164.947368421, 440956562622000, 7),
      (167.684210526, 441256316790000, 7),
      (170.421052632, 441563422343000, 7),
      (173.157894737, 441877890495000, 7),
      (175.894736842, 442199721248000, 7),
      (178.631578947, 442528901401000, 7),
      (181.368421053, 442865477648000, 7),
      (184.105263158, 443209423841000, 7),
      (186.842105263, 443560733529000, 7),
      (189.578947368, 443921675722000, 7),
      (192.315789474, 444287618625000, 7),
      (195.052631579, 444660886271000, 7),
      (197.789473684, 445041483551000, 7),
      (200.526315789, 445429302184000, 7),
      (203.263157895, 445824308884000, 7),
      (206.0, 446228747759000, 7)]"

text \<open>
  A solver and a namespace behave as in the reference run when, on the frames the
  namespace binds, the fit at every coarse penalty has the stored count, and the
  fit at every fine penalty has the stored count and a validation RSS that rounds
  to the stored one (half a unit of the twelfth digit of a number near
  \<open>4.4e14\<close> is \<open>500\<close>).
\<close>

definition reference_run :: "solver \<Rightarrow> kernel \<Rightarrow> bool" where
  "reference_run sv s \<longleftrightarrow>
     (\<forall>(p, c) \<in> set (cell31_output @ cell32_output).
        \<exists>m. fit_training sv s (of_int p) = Inr m \<and> nonzeros m = c) \<and>
     (\<forall>(p, r, c) \<in> set (zip (linspace 154 206 20) (map snd cell36_output)).
        \<exists>m pr r'. fit_and_score sv s p = Inr (m, pr, r') \<and> nonzeros m = c \<and>
          \<bar>r' - r\<bar> \<le> 500)"

subsection \<open>The bracket rule in the words of the specification\<close>

text \<open>
  The rule as the specification words it, for comparison with cell 33: over the
  scanned (penalty, count) pairs, \<open>max\<close> is the smallest penalty whose count is at
  most the target and \<open>min\<close> the largest penalty whose count is at least the
  target; \<open>None\<close> stands for the failure when an end has no candidate. The result
  is the pair \<open>(min, max)\<close>.
\<close>

definition spec_bracket :: "int \<Rightarrow> (int \<times> int) list \<Rightarrow> (int \<times> int) option" where
  "spec_bracket target pairs =
     (let lo = map fst (filter (\<lambda>(p, c). target \<le> c) pairs);
          hi = map fst (filter (\<lambda>(p, c). c \<le> target) pairs)
      in if lo = [] \<or> hi = [] then None else Some (Max (set lo), Min (set hi)))"

subsection \<open>Sample solvers and namespaces\<close>

text \<open>The feature list that cell 10 spells out.\<close>

definition feature_names :: "string list" where
  "feature_names =
     [''bedrooms'', ''bedrooms_square'', ''bathrooms'', ''sqft_living'',
      ''sqft_living_sqrt'', ''sqft_lot'', ''sqft_lot_sqrt'', ''floors'',
      ''floors_square'', ''waterfront'', ''view'', ''condition'',
      ''grade'', ''sqft_above'', ''sqft_basement'', ''yr_built'',
      ''yr_renovated'']"

text \<open>A frame of one house in which the price and every feature are zero.\<close>

definition zero_frame :: frame where
  "zero_frame = map_of (map (\<lambda>c. (c, [0])) (''price'' # feature_names))"

text \<open>The prediction of a linear model: intercept plus weighted features, per row.\<close>

definition linear_predict :: "real list \<Rightarrow> real \<Rightarrow> real list list \<Rightarrow> error + real list" where
  "linear_predict w b X = Inr (map (\<lambda>row. b + sum_list (map2 (*) w row)) (transpose X))"

text \<open>
  The solver past the penalty at which every weight has vanished: all weights zero,
  the intercept the mean of the target (an empty target is refused). On a frame
  whose features are all zero this is the LASSO solution at every penalty.
\<close>

definition flat_solver :: solver where
  "flat_solver =
     \<lparr>fit = (\<lambda>a X y. if y = [] then Inl ValueError
                       else Inr (replicate (length X) 0, sum_list y / real (length y))),
      predict = linear_predict\<rparr>"

text \<open>
  A solver made to agree with the stored outputs: eight, seven or six nonzero
  weights (with the intercept) by the penalty, and on the zero frame a validation
  RSS within the print precision of the stored value.
\<close>

definition table_roots :: "real list" where
  "table_roots =
     [20972134.02632, 20978601.93066, 20985213.83710, 20992002.20363, 20998965.75125,
      21006101.89421, 21013410.53573, 21020891.76260, 21028545.39068, 21036370.91803,
      21044369.26230, 21052539.60550, 21060881.59430, 21069448.87087, 21078131.28873,
      21086983.81161, 21096006.34127, 21105196.09442, 21114552.06449, 21124127.14786]"

definition table_intercept :: "real \<Rightarrow> real" where
  "table_intercept a =
     (if a < 154 \<or> 206 < a then 1
      else table_roots ! nat \<lfloor>(a - 154) * 19 / 52 + 1 / 2\<rfloor>)"

definition table_weights :: "real \<Rightarrow> nat" where
  "table_weights a = (if a \<le> 153 then 7 else if a \<le> 206 then 6 else 5)"

definition table_solver :: solver where
  "table_solver =
     \<lparr>fit = (\<lambda>a X y. Inr (replicate (table_weights a) 1 @
                              replicate (length X - table_weights a) 0,
                            table_intercept a)),
      predict = linear_predict\<rparr>"

text \<open>A fresh namespace after the loading cells: only the inputs are bound.\<close>

definition fresh_kernel :: "frame \<Rightarrow> frame \<Rightarrow> frame \<Rightarrow> string list \<Rightarrow> kernel" where
  "fresh_kernel tr va te fs =
     \<lparr>training = Some tr, validation = Some va, testing = Some te,
      all_features = Some fs,
      l1_list = None, l1_penalty = None, model = None, predictions = None, RSS = None,
      model10 = None, max_nonzeros = None, l1_penalty_values_min = None, l1_penalty_values_max = None,
      nonzeros_min = None, nonzeros_max = None, index = None, non_zeros = None,
      l1_penalty_min = None, l1_penalty_max = None, l1_penalty_values = None,
      model154 = None, out = []\<rparr>"

definition zero_kernel :: kernel where
  "zero_kernel = fresh_kernel zero_frame zero_frame zero_frame feature_names"

text \<open>The same namespace once an earlier run of cell 36 has bound its candidates.\<close>

definition rerun_kernel :: kernel where
  "rerun_kernel = zero_kernel\<lparr>l1_penalty_values := Some (linspace 154 206 20)\<rparr>"

subsection \<open>Projections for the frame lemmas\<close>

text \<open>What the two loops of cell 30 leave alone, and the sizes cell 30 fixes.\<close>

definition kept ::
  "kernel \<Rightarrow> (frame option \<times> frame option \<times> string list option) \<times> printed list \<times>
     int option \<times> int list option \<times> int list option" where
  "kept s = (inputs s, out s, max_nonzeros s, l1_penalty_values_min s, l1_penalty_values_max s)"

definition sizes :: "kernel \<Rightarrow> nat option \<times> nat option \<times> int list option \<times> int list option" where
  "sizes s = (map_option length (nonzeros_min s), map_option length (nonzeros_max s),
              l1_penalty_values_min s, l1_penalty_values_max s)"

section \<open>Properties\<close>

subsection \<open>Rounding to float64\<close>

text \<open>
  \<open>exponent x\<close> is the binary exponent of \<open>x\<close>; \<open>round_half_even\<close> gives a
  nearest integer, the even one of two; so \<open>float64 x\<close> has a significand of 53
  bits (or is the next power of two) and lies within half a unit of its last place
  of \<open>x\<close>.
\<close>

lemma floor_log2_bounds:
  "0 < n \<Longrightarrow> 2 ^ floor_log2 n \<le> n \<and> n < 2 ^ Suc (floor_log2 n)"
proof (induction n rule: floor_log2.induct)
  case (1 n)
  show ?case
  proof (cases "n < 2")
    case True
    with "1.prems" have "n = 1" by simp
    then show ?thesis by (simp add: floor_log2.simps)
  next
    case False
    then have pos: "0 < n div 2" by simp
    from "1.IH" [OF False pos] have
      lo: "2 ^ floor_log2 (n div 2) \<le> n div 2" and hi: "n div 2 < 2 ^ Suc (floor_log2 (n div 2))"
      by simp_all
    from False have fl: "floor_log2 n = Suc (floor_log2 (n div 2))"
      by (subst floor_log2.simps) simp
    from lo have "2 * 2 ^ floor_log2 (n div 2) \<le> n" by linarith
    moreover from hi have "n < 2 * 2 ^ Suc (floor_log2 (n div 2))" by linarith
    ultimately show ?thesis by (simp add: fl)
  qed
qed

lemma round_half_even_near: "\<bar>of_int (round_half_even x) - x\<bar> \<le> 1 / 2"
  by (auto simp: round_half_even_def Let_def)

lemma exponent_bounds:
  assumes "x \<noteq> 0"
  shows "2 powi exponent x \<le> \<bar>x\<bar> \<and> \<bar>x\<bar> < 2 powi (exponent x + 1)"
proof (cases "1 \<le> \<bar>x\<bar>")
  case True
  define n where "n = nat \<lfloor>\<bar>x\<bar>\<rfloor>"
  from True have n: "0 < n" "real n \<le> \<bar>x\<bar>" "\<bar>x\<bar> < real n + 1"
    unfolding n_def by (simp_all add: le_floor_iff)
  from floor_log2_bounds [OF n(1)] have
    "2 ^ floor_log2 n \<le> n" "n + 1 \<le> 2 ^ Suc (floor_log2 n)"
    by simp_all
  then have "real (2 ^ floor_log2 n) \<le> real n" "real (n + 1) \<le> real (2 ^ Suc (floor_log2 n))"
    by (simp_all only: of_nat_le_iff)
  then have "(2::real) ^ floor_log2 n \<le> real n" "real n + 1 \<le> 2 ^ Suc (floor_log2 n)"
    by simp_all
  with n have "(2::real) ^ floor_log2 n \<le> \<bar>x\<bar>" "\<bar>x\<bar> < 2 ^ Suc (floor_log2 n)"
    by linarith+
  moreover from True have "exponent x = int (floor_log2 n)"
    by (simp add: exponent_def n_def)
  moreover have "int (floor_log2 n) + 1 = int (Suc (floor_log2 n))" by simp
  ultimately show ?thesis
    by (simp only: power_int_of_nat)
next
  case False
  define y where "y = 1 / \<bar>x\<bar>"
  define n where "n = nat (\<lceil>y\<rceil> - 1)"
  from False assms have y: "1 < y" "0 < \<bar>x\<bar>" by (simp_all add: y_def)
  then have c: "2 \<le> \<lceil>y\<rceil>" by linarith
  then have n: "0 < n" "real n < y" "y \<le> real n + 1"
    unfolding n_def by (simp_all add: less_ceiling_iff) linarith+
  from floor_log2_bounds [OF n(1)] have
    "2 ^ floor_log2 n \<le> n" "n + 1 \<le> 2 ^ Suc (floor_log2 n)"
    by simp_all
  then have "real (2 ^ floor_log2 n) \<le> real n" "real (n + 1) \<le> real (2 ^ Suc (floor_log2 n))"
    by (simp_all only: of_nat_le_iff)
  then have "(2::real) ^ floor_log2 n \<le> real n" "real n + 1 \<le> 2 ^ Suc (floor_log2 n)"
    by simp_all
  with n have b: "(2::real) ^ floor_log2 n < y" "y \<le> 2 ^ Suc (floor_log2 n)"
    by linarith+
  have x: "\<bar>x\<bar> = 1 / y" using y by (simp add: y_def)
  from b y have "1 / 2 ^ Suc (floor_log2 n) \<le> 1 / y" "1 / y < 1 / (2::real) ^ floor_log2 n"
    by (simp_all add: frac_le frac_less2)
  moreover from False have "exponent x = - int (Suc (floor_log2 n))"
    by (simp add: exponent_def n_def y_def)
  moreover have "- int (Suc (floor_log2 n)) + 1 = - int (floor_log2 n)" by simp
  ultimately show ?thesis
    unfolding x by (simp only: power_int_minus power_int_of_nat inverse_eq_divide)
qed

lemma round_half_even_nearest:
  "\<bar>of_int (round_half_even x) - x\<bar> \<le> \<bar>of_int k - x\<bar>"
proof (cases "k \<le> \<lfloor>x\<rfloor>")
  case True
  then have "of_int k \<le> (of_int \<lfloor>x\<rfloor> :: real)" by simp
  then show ?thesis
    by (auto simp: round_half_even_def Let_def)
next
  case False
  then have "\<lfloor>x\<rfloor> + 1 \<le> k" by simp
  then have "of_int (\<lfloor>x\<rfloor> + 1) \<le> (of_int k :: real)" by (simp only: of_int_le_iff)
  then have "of_int \<lfloor>x\<rfloor> + 1 \<le> (of_int k :: real)" by simp
  then show ?thesis
    by (auto simp: round_half_even_def Let_def)
qed

lemma round_half_even_tie:
  "x - of_int \<lfloor>x\<rfloor> = 1 / 2 \<Longrightarrow> even (round_half_even x)"
  by (simp add: round_half_even_def Let_def)

lemma float64_error: "\<bar>float64 x - x\<bar> \<le> 2 powi (exponent x - 53)"
proof (cases "x = 0")
  case True
  then show ?thesis by (simp add: float64_def)
next
  case False
  define u :: real where "u = 2 powi (exponent x - 52)"
  have u: "0 < u" by (simp add: u_def)
  have "float64 x - x = (of_int (round_half_even (x / u)) - x / u) * u"
    using False u by (simp add: float64_def u_def [symmetric] Let_def algebra_simps)
  then have "\<bar>float64 x - x\<bar> = \<bar>of_int (round_half_even (x / u)) - x / u\<bar> * u"
    using u by (simp add: abs_mult)
  also have "\<dots> \<le> 1 / 2 * u"
    using round_half_even_near [of "x / u"] u by (intro mult_right_mono) simp_all
  also have "1 / 2 * u = 2 powi (exponent x - 53)"
    unfolding u_def using power_int_add [of "2::real" "exponent x - 53" 1] by simp
  finally show ?thesis .
qed

lemma float64_significand:
  assumes "x \<noteq> 0"
  shows "\<exists>m. float64 x = of_int m * 2 powi (exponent x - 52) \<and> 2 ^ 52 \<le> \<bar>m\<bar> \<and> \<bar>m\<bar> \<le> 2 ^ 53"
proof -
  define u :: real where "u = 2 powi (exponent x - 52)"
  define m where "m = round_half_even (x / u)"
  have u: "0 < u" by (simp add: u_def)
  have "2 powi exponent x = 2 powi (exponent x - 52) * (2::real) powi 52"
    using power_int_add [of "2::real" "exponent x - 52" 52] by simp
  then have lo: "2 powi exponent x = u * 2 ^ 52" by (simp add: u_def)
  have "2 powi (exponent x + 1) = 2 powi (exponent x - 52) * (2::real) powi 53"
    using power_int_add [of "2::real" "exponent x - 52" 53] by (simp add: add.commute)
  then have hi: "2 powi (exponent x + 1) = u * 2 ^ 53" by (simp add: u_def)
  from exponent_bounds [OF assms] have "u * 2 ^ 52 \<le> \<bar>x\<bar>" "\<bar>x\<bar> < u * 2 ^ 53"
    unfolding lo hi by simp_all
  with u have y: "2 ^ 52 \<le> \<bar>x / u\<bar>" "\<bar>x / u\<bar> < 2 ^ 53"
    by (simp_all add: pos_le_divide_eq pos_divide_less_eq mult.commute)
  from round_half_even_near [of "x / u"] have near: "\<bar>real_of_int m - x / u\<bar> \<le> 1 / 2"
    by (simp add: m_def)
  from y near have "2 ^ 52 - 1 / 2 \<le> \<bar>real_of_int m\<bar>" "\<bar>real_of_int m\<bar> < 2 ^ 53 + 1 / 2"
    by linarith+
  then have "real_of_int (2 ^ 52) - 1 < real_of_int \<bar>m\<bar>" "real_of_int \<bar>m\<bar> < real_of_int (2 ^ 53) + 1"
    by simp_all
  then have "2 ^ 52 - 1 < \<bar>m\<bar>" "\<bar>m\<bar> < 2 ^ 53 + 1"
    by linarith+
  then have "2 ^ 52 \<le> \<bar>m\<bar>" "\<bar>m\<bar> \<le> 2 ^ 53" by simp_all
  moreover from assms have "float64 x = of_int m * u"
    by (simp add: float64_def m_def u_def Let_def)
  ultimately show ?thesis unfolding u_def by blast
qed

subsection \<open>The candidates of the fine scan\<close>

text \<open>Evaluating \<open>float64\<close> at a number written out in digits.\<close>

lemma floor_log2_numeral:
  "floor_log2 0 = 0"
  "floor_log2 (Suc 0) = 0"
  "floor_log2 (numeral (Num.Bit0 n)) = Suc (floor_log2 (numeral n))"
  "floor_log2 (numeral (Num.Bit1 n)) = Suc (floor_log2 (numeral n))"
proof -
  show "floor_log2 0 = 0" "floor_log2 (Suc 0) = 0" by (simp_all add: floor_log2.simps)
  have "numeral (Num.Bit0 n) div 2 = (numeral n :: nat)" by simp
  moreover have "\<not> numeral (Num.Bit0 n) < (2 :: nat)" by simp
  ultimately show "floor_log2 (numeral (Num.Bit0 n)) = Suc (floor_log2 (numeral n))"
    by (subst floor_log2.simps) (simp only: if_False)
  have "numeral (Num.Bit1 n) div 2 = (numeral n :: nat)" by simp
  moreover have "\<not> numeral (Num.Bit1 n) < (2 :: nat)" by simp
  ultimately show "floor_log2 (numeral (Num.Bit1 n)) = Suc (floor_log2 (numeral n))"
    by (subst floor_log2.simps) (simp only: if_False)
qed

lemma float64_zero: "float64 0 = 0"
  by (simp add: float64_def)

lemmas float64_numeral =
  float64_zero float64_def [of "numeral a" for a] float64_def [of "numeral a / numeral b" for a b]
  exponent_def round_half_even_def floor_log2_numeral

text \<open>
  The candidates of cell 36, as float64 computes them: multiples of \<open>1 / 2 ^ 45\<close>,
  the spacing of float64 between 128 and 256. Only the endpoints coincide with the
  exact \<open>154 + k * 52 / 19\<close>.
\<close>

lemma fine_candidates:
  "linspace 154 206 20 =
     [154,
      5514687372660089 / 2 ^ 45, 5610981443640051 / 2 ^ 45, 5707275514620012 / 2 ^ 45,
      5803569585599973 / 2 ^ 45, 5899863656579934 / 2 ^ 45, 5996157727559896 / 2 ^ 45,
      6092451798539857 / 2 ^ 45, 6188745869519818 / 2 ^ 45, 6285039940499779 / 2 ^ 45,
      6381334011479741 / 2 ^ 45, 6477628082459702 / 2 ^ 45, 6573922153439663 / 2 ^ 45,
      6670216224419624 / 2 ^ 45, 6766510295399586 / 2 ^ 45, 6862804366379547 / 2 ^ 45,
      6959098437359508 / 2 ^ 45, 7055392508339470 / 2 ^ 45, 7151686579319431 / 2 ^ 45,
      206]"
  by (simp add: linspace_def float64_numeral Let_def upt_conv_Cons)

text \<open>
  The penalties that cell 36 printed are these candidates, to the twelve digits
  printed.
\<close>

lemma stored_fine_penalties:
  "\<forall>(p, q) \<in> set (zip (linspace 154 206 20) (map fst cell36_output)). \<bar>q - p\<bar> \<le> 5 / 10 ^ 10"
  unfolding fine_candidates by (simp add: cell36_output_def)

lemma fine_candidates_sorted: "sorted_wrt (<) (linspace 154 206 20)"
  unfolding fine_candidates by simp

lemma fine_candidates_ends:
  "hd (linspace 154 206 20) = 154" "last (linspace 154 206 20) = 206"
  unfolding fine_candidates by simp_all

text \<open>
  The exact step would be \<open>52 / 19\<close>. The float64 candidates have two different
  spacings, one unit of the last place (\<open>1 / 2 ^ 45\<close>) apart, and \<open>52 / 19\<close> lies
  between the two.
\<close>

lemma fine_candidates_steps:
  "\<forall>i<19. linspace 154 206 20 ! Suc i - linspace 154 206 20 ! i
      \<in> {96294070979961 / 2 ^ 45, 96294070979962 / 2 ^ 45}"
  unfolding fine_candidates by (simp add: less_Suc_eq numeral_eq_Suc)

lemma fine_candidates_uneven:
  "linspace 154 206 20 ! 1 - linspace 154 206 20 ! 0 \<noteq>
   linspace 154 206 20 ! 2 - linspace 154 206 20 ! 1"
  unfolding fine_candidates by simp

lemma fine_candidates_spacing:
  "\<forall>i<19. \<bar>linspace 154 206 20 ! Suc i - linspace 154 206 20 ! i - 52 / 19\<bar> \<le> 1 / 2 ^ 45"
proof (intro allI impI)
  fix i :: nat
  assume "i < 19"
  with fine_candidates_steps have
    "linspace 154 206 20 ! Suc i - linspace 154 206 20 ! i
       \<in> {96294070979961 / 2 ^ 45, 96294070979962 / 2 ^ 45}"
    by blast
  then show "\<bar>linspace 154 206 20 ! Suc i - linspace 154 206 20 ! i - 52 / 19\<bar> \<le> 1 / 2 ^ 45"
    by auto
qed

subsection \<open>What the loops and cells leave unchanged\<close>

lemma for_each_preserves:
  assumes "for_each body xs s = Inr s'"
    and step: "\<And>x s s'. body x s = Inr s' \<Longrightarrow> f s' = f s"
  shows "f s' = f s"
  using assms(1)
proof (induction xs arbitrary: s)
  case Nil
  then show ?case by simp
next
  case (Cons x xs)
  then obtain s1 where b: "body x s = Inr s1" and r: "for_each body xs s1 = Inr s'"
    by (cases "body x s") auto
  from Cons.IH [OF r] step [OF b] show ?case by simp
qed

lemma for_each_append:
  "for_each body (xs @ ys) s = bindE (for_each body xs s) (for_each body ys)"
proof (induction xs arbitrary: s)
  case Nil
  then show ?case by simp
next
  case (Cons x xs)
  then show ?case by (cases "body x s") simp_all
qed

lemma run_for_each: "run sv cs = for_each (exec sv) cs"
  by (rule ext) (simp add: run_def)

lemma run_append: "run sv (cs @ ds) s = bindE (run sv cs s) (run sv ds)"
  by (simp add: run_for_each for_each_append)

lemma run_Cons: "run sv (c # cs) s = bindE (exec sv c s) (run sv cs)"
  by (simp add: run_for_each)

lemma fit_training_inputs:
  "inputs s = inputs s' \<Longrightarrow> fit_training sv s a = fit_training sv s' a"
  by (simp add: fit_training_def inputs_def)

lemma fit_and_score_inputs:
  "inputs s = inputs s' \<Longrightarrow> fit_and_score sv s p = fit_and_score sv s' p"
  by (simp add: fit_and_score_def fit_training_def predict_validation_def rss_def inputs_def)

lemma bindE_Inr: "bindE m f = Inr y \<Longrightarrow> \<exists>x. m = Inr x \<and> f x = Inr y"
  by (cases m) auto

lemma body19_result:
  "body19 sv p s = Inr s' \<Longrightarrow>
   \<exists>m pr r. fit_and_score sv s p = Inr (m, pr, r) \<and>
     s' = s\<lparr>l1_penalty := Some p, model := Some m, predictions := Some pr,
            RSS := Some r, out := out s @ [RSS_line r p]\<rparr>"
  by (cases "fit_and_score sv s p") (auto simp: body19_def)

lemma body36_result:
  "body36 sv p s = Inr s' \<Longrightarrow>
   \<exists>m pr r. fit_and_score sv s p = Inr (m, pr, r) \<and>
     s' = s\<lparr>l1_penalty := Some p, model := Some m, predictions := Some pr,
            RSS := Some r, non_zeros := Some (nonzeros m),
            out := out s @ [Fine_line p r (nonzeros m)]\<rparr>"
  by (cases "fit_and_score sv s p") (auto simp: body36_def)

lemma body30_min_result:
  "body30_min sv (k, p) s = Inr s' \<Longrightarrow>
   \<exists>m buf. fit_training sv s (of_int p) = Inr m \<and> nonzeros_min s = Some buf \<and> k < length buf \<and>
     s' = s\<lparr>index := Some k, l1_penalty := Some (of_int p), model := Some m,
            non_zeros := Some (nonzeros m), nonzeros_min := Some (buf[k := nonzeros m])\<rparr>"
  by (cases "fit_training sv s (of_int p)"; cases "nonzeros_min s")
     (auto simp: body30_min_def split: if_splits)

lemma body30_max_result:
  "body30_max sv (k, p) s = Inr s' \<Longrightarrow>
   \<exists>m buf. fit_training sv s (of_int p) = Inr m \<and> nonzeros_max s = Some buf \<and> k < length buf \<and>
     s' = s\<lparr>index := Some k, l1_penalty := Some (of_int p), model := Some m,
            non_zeros := Some (nonzeros m), nonzeros_max := Some (buf[k := nonzeros m])\<rparr>"
  by (cases "fit_training sv s (of_int p)"; cases "nonzeros_max s")
     (auto simp: body30_max_def split: if_splits)

lemma body19_frames: "body19 sv p s = Inr s' \<Longrightarrow> frames s' = frames s"
  by (auto dest!: body19_result simp: frames_def inputs_def)

lemma body36_frames: "body36 sv p s = Inr s' \<Longrightarrow> frames s' = frames s"
  by (auto dest!: body36_result simp: frames_def inputs_def)

lemma body30_min_frames: "body30_min sv kp s = Inr s' \<Longrightarrow> frames s' = frames s"
  by (cases kp) (auto dest!: body30_min_result simp: frames_def inputs_def)

lemma body30_max_frames: "body30_max sv kp s = Inr s' \<Longrightarrow> frames s' = frames s"
  by (cases kp) (auto dest!: body30_max_result simp: frames_def inputs_def)

lemma cell19_frames:
  assumes "cell19 sv s = Inr s'"
  shows "frames s' = frames s"
proof -
  let ?s1 = "s\<lparr>l1_list := Some (logspace 1 7 13)\<rparr>"
  from assms have "for_each (body19 sv) (logspace 1 7 13) ?s1 = Inr s'"
    by (simp add: cell19_def scan19_def)
  then have "frames s' = frames ?s1"
    by (rule for_each_preserves [where f = frames]) (rule body19_frames)
  then show ?thesis by (simp add: frames_def inputs_def)
qed

lemma cell36_frames:
  assumes "cell36 sv s = Inr s'"
  shows "frames s' = frames s"
proof -
  let ?s1 = "s\<lparr>l1_penalty_values := Some (linspace 154 206 20)\<rparr>"
  from assms have "for_each (body36 sv) (linspace 154 206 20) ?s1 = Inr s'"
    by (simp add: cell36_def scan36_def)
  then have "frames s' = frames ?s1"
    by (rule for_each_preserves [where f = frames]) (rule body36_frames)
  then show ?thesis by (simp add: frames_def inputs_def)
qed

lemma cell30_steps:
  assumes "cell30 sv s = Inr s'"
  obtains vs s3 where
    "l1_penalty_values s = Some vs"
    "for_each (body30_min sv) (List.enumerate 0 (arange 150 158))
       (s\<lparr>l1_penalty_values_min := Some (arange 150 158),
          l1_penalty_values_max := Some (arange 201 210),
          nonzeros_min := Some (replicate (length vs) 0),
          nonzeros_max := Some (replicate (length vs) 0)\<rparr>) = Inr s3"
    "for_each (body30_max sv) (List.enumerate 0 (arange 201 210)) s3 = Inr s'"
proof -
  from assms obtain vs where vs: "l1_penalty_values s = Some vs"
    by (cases "l1_penalty_values s") (auto simp: cell30_def)
  let ?s2 = "s\<lparr>l1_penalty_values_min := Some (arange 150 158),
          l1_penalty_values_max := Some (arange 201 210),
          nonzeros_min := Some (replicate (length vs) 0),
          nonzeros_max := Some (replicate (length vs) 0)\<rparr>"
  from assms vs obtain s3 where
    s3: "for_each (body30_min sv) (List.enumerate 0 (arange 150 158)) ?s2 = Inr s3"
    and rest: "bindE (lookup ''l1_penalty_values_max'' (l1_penalty_values_max s3))
                 (\<lambda>hi. scan30_max sv hi s3) = Inr s'"
    by (auto simp: cell30_def scan30_min_def dest!: bindE_Inr)
  from s3 have "l1_penalty_values_max s3 = l1_penalty_values_max ?s2"
    by (rule for_each_preserves [where f = l1_penalty_values_max])
       (auto dest!: body30_min_result)
  with rest have "for_each (body30_max sv) (List.enumerate 0 (arange 201 210)) s3 = Inr s'"
    by (simp add: scan30_max_def)
  with vs s3 show ?thesis by (rule that)
qed

lemma cell30_frames:
  assumes "cell30 sv s = Inr s'"
  shows "frames s' = frames s"
proof -
  from assms obtain vs s3 where "l1_penalty_values s = Some vs" and
    a: "for_each (body30_min sv) (List.enumerate 0 (arange 150 158))
       (s\<lparr>l1_penalty_values_min := Some (arange 150 158),
          l1_penalty_values_max := Some (arange 201 210),
          nonzeros_min := Some (replicate (length vs) 0),
          nonzeros_max := Some (replicate (length vs) 0)\<rparr>) = Inr s3"
    and b: "for_each (body30_max sv) (List.enumerate 0 (arange 201 210)) s3 = Inr s'"
    by (rule cell30_steps) blast
  from a have "frames s3 = frames (s\<lparr>l1_penalty_values_min := Some (arange 150 158),
          l1_penalty_values_max := Some (arange 201 210),
          nonzeros_min := Some (replicate (length vs) 0),
          nonzeros_max := Some (replicate (length vs) 0)\<rparr>)"
    by (rule for_each_preserves [where f = frames]) (rule body30_min_frames)
  moreover from b have "frames s' = frames s3"
    by (rule for_each_preserves [where f = frames]) (rule body30_max_frames)
  ultimately show ?thesis by (simp add: frames_def inputs_def)
qed

lemma exec_frames: "exec sv c s = Inr s' \<Longrightarrow> frames s' = frames s"
proof (cases c)
  case Cell19 then show "exec sv c s = Inr s' \<Longrightarrow> ?thesis" by (simp add: cell19_frames)
next
  case Cell21 then show "exec sv c s = Inr s' \<Longrightarrow> ?thesis"
    by (auto simp: cell21_def frames_def inputs_def dest!: bindE_Inr)
next
  case Cell23 then show "exec sv c s = Inr s' \<Longrightarrow> ?thesis"
    by (auto simp: cell23_def frames_def inputs_def dest!: bindE_Inr)
next
  case Cell26 then show "exec sv c s = Inr s' \<Longrightarrow> ?thesis" by (auto simp: cell26_def frames_def inputs_def)
next
  case Cell28 then show "exec sv c s = Inr s' \<Longrightarrow> ?thesis" by (auto simp: cell28_def frames_def inputs_def)
next
  case Cell29 then show "exec sv c s = Inr s' \<Longrightarrow> ?thesis" by (auto simp: cell29_def frames_def inputs_def)
next
  case Cell30 then show "exec sv c s = Inr s' \<Longrightarrow> ?thesis" by (simp add: cell30_frames)
next
  case Cell31 then show "exec sv c s = Inr s' \<Longrightarrow> ?thesis"
    by (auto simp: cell31_def frames_def inputs_def dest!: bindE_Inr)
next
  case Cell32 then show "exec sv c s = Inr s' \<Longrightarrow> ?thesis"
    by (auto simp: cell32_def frames_def inputs_def dest!: bindE_Inr)
next
  case Cell33 then show "exec sv c s = Inr s' \<Longrightarrow> ?thesis" by (auto simp: cell33_def frames_def inputs_def)
next
  case Cell36 then show "exec sv c s = Inr s' \<Longrightarrow> ?thesis" by (simp add: cell36_frames)
next
  case Cell38 then show "exec sv c s = Inr s' \<Longrightarrow> ?thesis"
    by (auto simp: cell38_def frames_def inputs_def dest!: bindE_Inr)
qed


lemma frames_inputs: "frames s' = frames s \<Longrightarrow> inputs s' = inputs s"
  by (simp add: frames_def)

lemma cell36_inputs: "cell36 sv s = Inr s' \<Longrightarrow> inputs s' = inputs s"
  by (intro frames_inputs cell36_frames)

lemma exec_inputs: "exec sv c s = Inr s' \<Longrightarrow> inputs s' = inputs s"
  by (intro frames_inputs exec_frames)

subsection \<open>The scans depend on the inputs only\<close>

lemma agree_cases:
  assumes "agree f s1 r1 s2 r2"
  obtains e where "r1 = Inl e" "r2 = Inl e"
  | a b ls where "r1 = Inr a" "r2 = Inr b" "f a = f b" "out a = out s1 @ ls" "out b = out s2 @ ls"
  using assms by (cases r1) (auto simp: agree_def)

lemma agree_outcome:
  assumes "agree f s1 r1 s2 r2"
  shows "outcome s1 r1 = outcome s2 r2"
  using assms by (rule agree_cases) (simp_all add: outcome_def printed_by_def)

lemma agree_start:
  assumes "agree f t1 r1 t2 r2" and "out t1 = out s1" and "out t2 = out s2"
  shows "agree f s1 r1 s2 r2"
  using assms by (cases r1) (auto simp: agree_def)

lemma agree_bind:
  assumes first: "agree f s1 r1 s2 r2"
    and rest: "\<And>a b. f a = f b \<Longrightarrow> agree f a (k a) b (k b)"
  shows "agree f s1 (bindE r1 k) s2 (bindE r2 k)"
  using first
proof (rule agree_cases)
  fix e
  assume "r1 = Inl e" and "r2 = Inl e"
  then show ?thesis by (simp add: agree_def)
next
  fix a b ls
  assume r: "r1 = Inr a" "r2 = Inr b" and f: "f a = f b"
    and o: "out a = out s1 @ ls" "out b = out s2 @ ls"
  from rest [OF f] show ?thesis
  proof (rule agree_cases)
    fix e
    assume "k a = Inl e" and "k b = Inl e"
    with r show ?thesis by (simp add: agree_def)
  next
    fix a' b' ls'
    assume "k a = Inr a'" "k b = Inr b'" "f a' = f b'"
      "out a' = out a @ ls'" "out b' = out b @ ls'"
    with r o show ?thesis by (simp add: agree_def)
  qed
qed

lemma for_each_agree:
  assumes "f s1 = f s2"
    and step: "\<And>x a b. f a = f b \<Longrightarrow> agree f a (body x a) b (body x b)"
  shows "agree f s1 (for_each body xs s1) s2 (for_each body xs s2)"
  using assms(1)
proof (induction xs arbitrary: s1 s2)
  case Nil
  then show ?case by (simp add: agree_def)
next
  case (Cons x xs)
  from Cons.prems have "agree f s1 (body x s1) s2 (body x s2)" by (rule step)
  then have "agree f s1 (bindE (body x s1) (for_each body xs)) s2
      (bindE (body x s2) (for_each body xs))"
    by (rule agree_bind) (rule Cons.IH)
  then show ?case by simp
qed

text \<open>
  A pass of the loops of cells 19 and 36 reads the inputs and assigns names that no
  cell reads back; so it respects every projection \<open>f\<close> of the namespace that
  ignores those names.
\<close>

lemma body36_agree:
  assumes "inputs a = inputs b"
    and "\<And>l m pr r z oa ob.
      f (a\<lparr>l1_penalty := l, model := m, predictions := pr, RSS := r, non_zeros := z,
           out := oa\<rparr>) =
      f (b\<lparr>l1_penalty := l, model := m, predictions := pr, RSS := r, non_zeros := z,
           out := ob\<rparr>)"
  shows "agree f a (body36 sv p a) b (body36 sv p b)"
proof -
  from assms(1) have fs: "fit_and_score sv a p = fit_and_score sv b p"
    by (rule fit_and_score_inputs)
  show ?thesis
  proof (cases "fit_and_score sv a p")
    case (Inl e)
    then have "fit_and_score sv b p = Inl e" unfolding fs .
    with Inl show ?thesis by (simp add: body36_def agree_def)
  next
    case (Inr row)
    then have "fit_and_score sv b p = Inr row" unfolding fs .
    with Inr show ?thesis by (cases row) (simp add: body36_def agree_def assms(2))
  qed
qed

lemma body19_agree:
  assumes "inputs a = inputs b"
    and "\<And>l m pr r oa ob.
      f (a\<lparr>l1_penalty := l, model := m, predictions := pr, RSS := r, out := oa\<rparr>) =
      f (b\<lparr>l1_penalty := l, model := m, predictions := pr, RSS := r, out := ob\<rparr>)"
  shows "agree f a (body19 sv p a) b (body19 sv p b)"
proof -
  from assms(1) have fs: "fit_and_score sv a p = fit_and_score sv b p"
    by (rule fit_and_score_inputs)
  show ?thesis
  proof (cases "fit_and_score sv a p")
    case (Inl e)
    then have "fit_and_score sv b p = Inl e" unfolding fs .
    with Inl show ?thesis by (simp add: body19_def agree_def)
  next
    case (Inr row)
    then have "fit_and_score sv b p = Inr row" unfolding fs .
    with Inr show ?thesis by (cases row) (simp add: body19_def agree_def assms(2))
  qed
qed

lemma cell36_agree_inputs:
  assumes "inputs s1 = inputs s2"
  shows "agree inputs s1 (cell36 sv s1) s2 (cell36 sv s2)"
proof -
  let ?u = "\<lambda>s. s\<lparr>l1_penalty_values := Some (linspace 154 206 20)\<rparr>"
  have c: "cell36 sv s = for_each (body36 sv) (linspace 154 206 20) (?u s)" for s
    by (simp add: cell36_def scan36_def)
  from assms have "inputs (?u s1) = inputs (?u s2)" by (simp add: inputs_def)
  then have "agree inputs (?u s1) (cell36 sv s1) (?u s2) (cell36 sv s2)"
    unfolding c by (rule for_each_agree) (rule body36_agree, simp_all add: inputs_def)
  then show ?thesis by (rule agree_start) simp_all
qed

lemma cell19_agree_inputs:
  assumes "inputs s1 = inputs s2"
  shows "agree inputs s1 (cell19 sv s1) s2 (cell19 sv s2)"
proof -
  let ?u = "\<lambda>s. s\<lparr>l1_list := Some (logspace 1 7 13)\<rparr>"
  have c: "cell19 sv s = for_each (body19 sv) (logspace 1 7 13) (?u s)" for s
    by (simp add: cell19_def scan19_def)
  from assms have "inputs (?u s1) = inputs (?u s2)" by (simp add: inputs_def)
  then have "agree inputs (?u s1) (cell19 sv s1) (?u s2) (cell19 sv s2)"
    unfolding c by (rule for_each_agree) (rule body19_agree, simp_all add: inputs_def)
  then show ?thesis by (rule agree_start) simp_all
qed

lemma cell36_same:
  assumes "inputs s1 = inputs s2"
  shows "outcome s1 (cell36 sv s1) = outcome s2 (cell36 sv s2)"
  by (rule agree_outcome [where f = inputs]) (rule cell36_agree_inputs [OF assms])

lemma cell19_same:
  assumes "inputs s1 = inputs s2"
  shows "outcome s1 (cell19 sv s1) = outcome s2 (cell19 sv s2)"
  by (rule agree_outcome [where f = inputs]) (rule cell19_agree_inputs [OF assms])

lemma cell36_repeat:
  assumes "cell36 sv s = Inr s'"
  shows "outcome s' (cell36 sv s') = outcome s (cell36 sv s)"
proof -
  from assms have "inputs s' = inputs s" by (rule cell36_inputs)
  then show ?thesis by (rule cell36_same)
qed

subsection \<open>A run depends on the names its cells read\<close>

lemma reads_inputs: "reads a = reads b \<Longrightarrow> inputs a = inputs b"
  by (simp add: reads_def)

lemma cell19_agree:
  assumes "reads s1 = reads s2"
  shows "agree reads s1 (cell19 sv s1) s2 (cell19 sv s2)"
proof -
  let ?u = "\<lambda>s. s\<lparr>l1_list := Some (logspace 1 7 13)\<rparr>"
  have c: "cell19 sv s = for_each (body19 sv) (logspace 1 7 13) (?u s)" for s
    by (simp add: cell19_def scan19_def)
  from assms have "reads (?u s1) = reads (?u s2)" by (simp add: reads_def inputs_def)
  then have "agree reads (?u s1) (cell19 sv s1) (?u s2) (cell19 sv s2)"
    unfolding c
    by (rule for_each_agree) (rule body19_agree, simp_all add: reads_def inputs_def)
  then show ?thesis by (rule agree_start) simp_all
qed

lemma cell36_agree:
  assumes "reads s1 = reads s2"
  shows "agree reads s1 (cell36 sv s1) s2 (cell36 sv s2)"
proof -
  let ?u = "\<lambda>s. s\<lparr>l1_penalty_values := Some (linspace 154 206 20)\<rparr>"
  have c: "cell36 sv s = for_each (body36 sv) (linspace 154 206 20) (?u s)" for s
    by (simp add: cell36_def scan36_def)
  from assms have "reads (?u s1) = reads (?u s2)" by (simp add: reads_def inputs_def)
  then have "agree reads (?u s1) (cell36 sv s1) (?u s2) (cell36 sv s2)"
    unfolding c
    by (rule for_each_agree) (rule body36_agree, simp_all add: reads_def inputs_def)
  then show ?thesis by (rule agree_start) simp_all
qed

lemma body30_min_agree:
  assumes "reads a = reads b"
  shows "agree reads a (body30_min sv kp a) b (body30_min sv kp b)"
proof -
  obtain k p where kp: "kp = (k, p)" by (cases kp)
  from assms have fs: "fit_training sv a (of_int p) = fit_training sv b (of_int p)"
    by (intro fit_training_inputs reads_inputs)
  from assms have nz: "nonzeros_min a = nonzeros_min b" by (simp add: reads_def)
  show ?thesis
  proof (cases "fit_training sv a (of_int p)")
    case (Inl e)
    then have "fit_training sv b (of_int p) = Inl e" unfolding fs .
    with Inl kp show ?thesis by (simp add: body30_min_def agree_def)
  next
    case (Inr m)
    then have "fit_training sv b (of_int p) = Inr m" unfolding fs .
    with Inr kp nz assms show ?thesis
      by (cases "nonzeros_min b") (simp_all add: body30_min_def agree_def reads_def inputs_def)
  qed
qed

lemma body30_max_agree:
  assumes "reads a = reads b"
  shows "agree reads a (body30_max sv kp a) b (body30_max sv kp b)"
proof -
  obtain k p where kp: "kp = (k, p)" by (cases kp)
  from assms have fs: "fit_training sv a (of_int p) = fit_training sv b (of_int p)"
    by (intro fit_training_inputs reads_inputs)
  from assms have nz: "nonzeros_max a = nonzeros_max b" by (simp add: reads_def)
  show ?thesis
  proof (cases "fit_training sv a (of_int p)")
    case (Inl e)
    then have "fit_training sv b (of_int p) = Inl e" unfolding fs .
    with Inl kp show ?thesis by (simp add: body30_max_def agree_def)
  next
    case (Inr m)
    then have "fit_training sv b (of_int p) = Inr m" unfolding fs .
    with Inr kp nz assms show ?thesis
      by (cases "nonzeros_max b") (simp_all add: body30_max_def agree_def reads_def inputs_def)
  qed
qed

lemma scan30_max_agree:
  assumes "reads a = reads b"
  shows "agree reads a
     (bindE (lookup ''l1_penalty_values_max'' (l1_penalty_values_max a))
        (\<lambda>hi. scan30_max sv hi a)) b
     (bindE (lookup ''l1_penalty_values_max'' (l1_penalty_values_max b))
        (\<lambda>hi. scan30_max sv hi b))"
proof (cases "l1_penalty_values_max a")
  case None
  with assms have "l1_penalty_values_max b = None" by (simp add: reads_def)
  with None show ?thesis by (simp add: agree_def)
next
  case (Some hi)
  with assms have "l1_penalty_values_max b = Some hi" by (simp add: reads_def)
  moreover from assms have "agree reads a (for_each (body30_max sv) (List.enumerate 0 hi) a) b
      (for_each (body30_max sv) (List.enumerate 0 hi) b)"
    by (rule for_each_agree) (rule body30_max_agree)
  ultimately show ?thesis using Some by (simp add: scan30_max_def)
qed

lemma cell30_agree:
  assumes "reads s1 = reads s2"
  shows "agree reads s1 (cell30 sv s1) s2 (cell30 sv s2)"
proof (cases "l1_penalty_values s1")
  case None
  with assms have "l1_penalty_values s2 = None" by (simp add: reads_def)
  with None show ?thesis by (simp add: cell30_def agree_def)
next
  case (Some vs)
  with assms have vs2: "l1_penalty_values s2 = Some vs" by (simp add: reads_def)
  let ?u = "\<lambda>s. s\<lparr>l1_penalty_values_min := Some (arange 150 158),
          l1_penalty_values_max := Some (arange 201 210),
          nonzeros_min := Some (replicate (length vs) 0),
          nonzeros_max := Some (replicate (length vs) 0)\<rparr>"
  have c1: "cell30 sv s1 = bindE (for_each (body30_min sv) (List.enumerate 0 (arange 150 158)) (?u s1))
      (\<lambda>s3. bindE (lookup ''l1_penalty_values_max'' (l1_penalty_values_max s3))
        (\<lambda>hi. scan30_max sv hi s3))"
    using Some by (simp add: cell30_def scan30_min_def)
  have c2: "cell30 sv s2 = bindE (for_each (body30_min sv) (List.enumerate 0 (arange 150 158)) (?u s2))
      (\<lambda>s3. bindE (lookup ''l1_penalty_values_max'' (l1_penalty_values_max s3))
        (\<lambda>hi. scan30_max sv hi s3))"
    using vs2 by (simp add: cell30_def scan30_min_def)
  from assms have r: "reads (?u s1) = reads (?u s2)" by (simp add: reads_def inputs_def)
  then have "agree reads (?u s1) (for_each (body30_min sv) (List.enumerate 0 (arange 150 158)) (?u s1))
      (?u s2) (for_each (body30_min sv) (List.enumerate 0 (arange 150 158)) (?u s2))"
    by (rule for_each_agree) (rule body30_min_agree)
  then have "agree reads (?u s1) (cell30 sv s1) (?u s2) (cell30 sv s2)"
    unfolding c1 c2 by (rule agree_bind) (rule scan30_max_agree)
  then show ?thesis by (rule agree_start) simp_all
qed

lemma exec_agree:
  assumes "reads s1 = reads s2" and "c \<noteq> Cell21" and "c \<noteq> Cell23"
  shows "agree reads s1 (exec sv c s1) s2 (exec sv c s2)"
proof (cases c)
  case Cell19 with assms show ?thesis by (simp add: cell19_agree)
next
  case Cell21 with assms show ?thesis by simp
next
  case Cell23 with assms show ?thesis by simp
next
  case Cell26 with assms show ?thesis by (simp add: cell26_def agree_def reads_def inputs_def)
next
  case Cell28 with assms show ?thesis by (simp add: cell28_def agree_def reads_def inputs_def)
next
  case Cell29 with assms show ?thesis by (simp add: cell29_def agree_def reads_def inputs_def)
next
  case Cell30 with assms show ?thesis by (simp add: cell30_agree)
next
  case Cell31
  from assms have "l1_penalty_values_min s1 = l1_penalty_values_min s2"
    "nonzeros_min s1 = nonzeros_min s2" by (simp_all add: reads_def)
  with Cell31 assms show ?thesis
    by (cases "l1_penalty_values_min s2"; cases "nonzeros_min s2")
       (simp_all add: cell31_def agree_def reads_def inputs_def)
next
  case Cell32
  from assms have "l1_penalty_values_max s1 = l1_penalty_values_max s2"
    "nonzeros_max s1 = nonzeros_max s2" by (simp_all add: reads_def)
  with Cell32 assms show ?thesis
    by (cases "l1_penalty_values_max s2"; cases "nonzeros_max s2")
       (simp_all add: cell32_def agree_def reads_def inputs_def)
next
  case Cell33 with assms show ?thesis by (simp add: cell33_def agree_def reads_def inputs_def)
next
  case Cell36 with assms show ?thesis by (simp add: cell36_agree)
next
  case Cell38
  from assms have fs: "fit_training sv s1 154 = fit_training sv s2 154"
    by (intro fit_training_inputs reads_inputs)
  with Cell38 assms show ?thesis
    by (cases "fit_training sv s2 154") (simp_all add: cell38_def agree_def reads_def inputs_def)
qed

lemma run_agree:
  assumes "reads s1 = reads s2" and "Cell21 \<notin> set cs" and "Cell23 \<notin> set cs"
  shows "agree reads s1 (run sv cs s1) s2 (run sv cs s2)"
  using assms
proof (induction cs arbitrary: s1 s2)
  case Nil
  then show ?case by (simp add: run_def agree_def)
next
  case (Cons c cs)
  from Cons.prems have "agree reads s1 (exec sv c s1) s2 (exec sv c s2)"
    by (intro exec_agree) auto
  then have "agree reads s1 (bindE (exec sv c s1) (run sv cs)) s2 (bindE (exec sv c s2) (run sv cs))"
    using Cons.prems by (intro agree_bind Cons.IH) auto
  then show ?case by (simp only: run_Cons)
qed

text \<open>
  The scans of cells 19 and 36 depend on the inputs only. Two invocations that find
  the same training frame, validation frame and feature list in the namespace, with
  the same solver, end the same way, with the same exception or the same printed
  lines, whatever else the two namespaces bind; and running cell 36 again in the
  namespace it left behind prints the same lines again.
\<close>

lemma scans_depend_on_inputs:
  assumes "inputs s1 = inputs s2"
  shows "outcome s1 (exec sv Cell36 s1) = outcome s2 (exec sv Cell36 s2) \<and>
         outcome s1 (exec sv Cell19 s1) = outcome s2 (exec sv Cell19 s2) \<and>
         (\<forall>s'. exec sv Cell36 s1 = Inr s' \<longrightarrow>
            outcome s' (exec sv Cell36 s') = outcome s1 (exec sv Cell36 s1))"
proof (intro conjI allI impI)
  from assms show "outcome s1 (exec sv Cell36 s1) = outcome s2 (exec sv Cell36 s2)"
    by (simp only: exec.simps) (rule cell36_same)
  from assms show "outcome s1 (exec sv Cell19 s1) = outcome s2 (exec sv Cell19 s2)"
    by (simp only: exec.simps) (rule cell19_same)
next
  fix s'
  assume "exec sv Cell36 s1 = Inr s'"
  then have "cell36 sv s1 = Inr s'" by simp
  then show "outcome s' (exec sv Cell36 s') = outcome s1 (exec sv Cell36 s1)"
    unfolding exec.simps by (rule cell36_repeat)
qed

text \<open>
  The two-phase search depends on the inputs and on one more name. Cell 30 assigns
  its candidates and buffers before any cell reads them, so what they held before
  does not matter; \<^verbatim>\<open>l1_penalty_values\<close> it reads as it finds it.
\<close>

lemma cell30_overwrites:
  "cell30 sv (s\<lparr>l1_penalty_values_min := a, l1_penalty_values_max := b,
                 nonzeros_min := c, nonzeros_max := d\<rparr>) = cell30 sv s"
  by (simp add: cell30_def)

lemma agree_prefix:
  assumes "agree f t1 r1 t2 r2" and "out t1 = out s1 @ ls" and "out t2 = out s2 @ ls"
  shows "agree f s1 r1 s2 r2"
  using assms by (cases r1) (auto simp: agree_def)

lemma search_depends_on_stale_name:
  assumes "inputs s1 = inputs s2" and "l1_penalty_values s1 = l1_penalty_values s2"
  shows "outcome s1 (run sv search s1) = outcome s2 (run sv search s2)"
proof -
  define shown where "shown = [Shown_ints (map2 (+) (arange 100 102) (arange 0 2)),
    Shown_reals (logspace 2.1 2.4 20)]"
  define pre where "pre s = s\<lparr>max_nonzeros := Some 7, out := out s @ shown\<rparr>"
    for s :: kernel
  define erase where "erase s = s\<lparr>l1_penalty_values_min := None, l1_penalty_values_max := None,
    nonzeros_min := None, nonzeros_max := None\<rparr>" for s :: kernel
  have r: "run sv search s =
      bindE (cell30 sv (pre s)) (run sv [Cell31, Cell32, Cell33, Cell36, Cell38])" for s
    by (simp add: search_def run_Cons cell26_def cell28_def cell29_def pre_def shown_def)
  have e: "cell30 sv (erase s) = cell30 sv s" for s
    unfolding erase_def by (rule cell30_overwrites)
  from assms have "reads (erase (pre s1)) = reads (erase (pre s2))"
    by (simp add: reads_def inputs_def erase_def pre_def)
  then have "agree reads (erase (pre s1)) (cell30 sv (erase (pre s1)))
      (erase (pre s2)) (cell30 sv (erase (pre s2)))"
    by (rule cell30_agree)
  then have "agree reads (erase (pre s1)) (cell30 sv (pre s1)) (erase (pre s2)) (cell30 sv (pre s2))"
    unfolding e .
  then have "agree reads (erase (pre s1)) (run sv search s1) (erase (pre s2)) (run sv search s2)"
    unfolding r by (rule agree_bind) (rule run_agree, simp_all)
  then have "agree reads s1 (run sv search s1) s2 (run sv search s2)"
    by (rule agree_prefix [where ls = shown]) (simp_all add: erase_def pre_def)
  then show ?thesis by (rule agree_outcome)
qed

subsection \<open>The name that sizes the buffers of cell 30\<close>

lemma for_each_preserves_in:
  assumes "for_each body xs s = Inr s'"
    and step: "\<And>x s s'. x \<in> set xs \<Longrightarrow> body x s = Inr s' \<Longrightarrow> f s' = f s"
  shows "f s' = f s"
  using assms
proof (induction xs arbitrary: s)
  case Nil
  then show ?case by simp
next
  case (Cons x xs)
  from Cons.prems(1) obtain s1 where b: "body x s = Inr s1" and r: "for_each body xs s1 = Inr s'"
    by (cases "body x s") auto
  from r have "f s' = f s1" by (rule Cons.IH) (rule Cons.prems(2), simp_all)
  moreover from b have "f s1 = f s" by (intro Cons.prems(2)) simp_all
  ultimately show ?case by simp
qed

lemma cell30_unbound:
  "l1_penalty_values s = None \<Longrightarrow> cell30 sv s = Inl (NameError ''l1_penalty_values'')"
  by (simp add: cell30_def)

lemma cell19_candidates:
  assumes "cell19 sv s = Inr s'"
  shows "l1_penalty_values s' = l1_penalty_values s"
proof -
  let ?s1 = "s\<lparr>l1_list := Some (logspace 1 7 13)\<rparr>"
  from assms have "for_each (body19 sv) (logspace 1 7 13) ?s1 = Inr s'"
    by (simp add: cell19_def scan19_def)
  then have "l1_penalty_values s' = l1_penalty_values ?s1"
    by (rule for_each_preserves [where f = l1_penalty_values]) (auto dest!: body19_result)
  then show ?thesis by simp
qed

lemma cell30_candidates:
  assumes "cell30 sv s = Inr s'"
  shows "l1_penalty_values s' = l1_penalty_values s"
proof -
  from assms obtain vs s3 where "l1_penalty_values s = Some vs" and
    a: "for_each (body30_min sv) (List.enumerate 0 (arange 150 158))
       (s\<lparr>l1_penalty_values_min := Some (arange 150 158),
          l1_penalty_values_max := Some (arange 201 210),
          nonzeros_min := Some (replicate (length vs) 0),
          nonzeros_max := Some (replicate (length vs) 0)\<rparr>) = Inr s3"
    and b: "for_each (body30_max sv) (List.enumerate 0 (arange 201 210)) s3 = Inr s'"
    by (rule cell30_steps) blast
  from a have "l1_penalty_values s3 = l1_penalty_values (s\<lparr>l1_penalty_values_min := Some (arange 150 158),
          l1_penalty_values_max := Some (arange 201 210),
          nonzeros_min := Some (replicate (length vs) 0),
          nonzeros_max := Some (replicate (length vs) 0)\<rparr>)"
    by (rule for_each_preserves [where f = l1_penalty_values]) (auto dest!: body30_min_result)
  moreover from b have "l1_penalty_values s' = l1_penalty_values s3"
    by (rule for_each_preserves [where f = l1_penalty_values]) (auto dest!: body30_max_result)
  ultimately show ?thesis by simp
qed

lemma exec_candidates:
  assumes "c \<noteq> Cell36" and "exec sv c s = Inr s'"
  shows "l1_penalty_values s' = l1_penalty_values s"
proof (cases c)
  case Cell19 with assms show ?thesis by (simp add: cell19_candidates)
next
  case Cell21 with assms show ?thesis
    by (auto simp: cell21_def dest!: bindE_Inr)
next
  case Cell23 with assms show ?thesis by (auto simp: cell23_def dest!: bindE_Inr)
next
  case Cell26 with assms show ?thesis by (auto simp: cell26_def)
next
  case Cell28 with assms show ?thesis by (auto simp: cell28_def)
next
  case Cell29 with assms show ?thesis by (auto simp: cell29_def)
next
  case Cell30 with assms show ?thesis by (simp add: cell30_candidates)
next
  case Cell31 with assms show ?thesis by (auto simp: cell31_def dest!: bindE_Inr)
next
  case Cell32 with assms show ?thesis by (auto simp: cell32_def dest!: bindE_Inr)
next
  case Cell33 with assms show ?thesis by (auto simp: cell33_def)
next
  case Cell36 with assms show ?thesis by simp
next
  case Cell38 with assms show ?thesis by (auto simp: cell38_def dest!: bindE_Inr)
qed

lemma run_candidates:
  assumes "Cell36 \<notin> set cs" and "run sv cs s = Inr s'"
  shows "l1_penalty_values s' = l1_penalty_values s"
proof -
  from assms(2) have "for_each (exec sv) cs s = Inr s'" by (simp add: run_def)
  then show ?thesis
  proof (rule for_each_preserves_in [where f = l1_penalty_values])
    fix c t t'
    assume "c \<in> set cs" and "exec sv c t = Inr t'"
    with assms(1) show "l1_penalty_values t' = l1_penalty_values t"
      by (intro exec_candidates [of c]) auto
  qed
qed

lemma notebook_split: "notebook = [Cell19, Cell21, Cell23, Cell26, Cell28, Cell29] @ Cell30 # [Cell31, Cell32, Cell33, Cell36, Cell38]"
  by (simp add: notebook_def)

lemma notebook_stops:
  assumes "l1_penalty_values s = None"
  shows "run sv notebook s =
     (case run sv [Cell19, Cell21, Cell23, Cell26, Cell28, Cell29] s of Inl e \<Rightarrow> Inl e
      | Inr s1 \<Rightarrow> Inl (NameError ''l1_penalty_values''))"
proof (cases "run sv [Cell19, Cell21, Cell23, Cell26, Cell28, Cell29] s")
  case (Inl e)
  then show ?thesis by (simp only: notebook_split run_append bindE.simps sum.case)
next
  case (Inr s1)
  then have "l1_penalty_values s1 = l1_penalty_values s"
    by (intro run_candidates [of "[Cell19, Cell21, Cell23, Cell26, Cell28, Cell29]"]) simp_all
  with assms have "cell30 sv s1 = Inl (NameError ''l1_penalty_values'')"
    by (simp add: cell30_unbound)
  with Inr show ?thesis
    by (simp only: notebook_split run_append run_Cons bindE.simps sum.case exec.simps)
qed

lemma cell36_candidates:
  assumes "cell36 sv s = Inr s'"
  shows "l1_penalty_values s' = Some (linspace 154 206 20)"
proof -
  let ?s1 = "s\<lparr>l1_penalty_values := Some (linspace 154 206 20)\<rparr>"
  from assms have "for_each (body36 sv) (linspace 154 206 20) ?s1 = Inr s'"
    by (simp add: cell36_def scan36_def)
  then have "l1_penalty_values s' = l1_penalty_values ?s1"
    by (rule for_each_preserves [where f = l1_penalty_values]) (auto dest!: body36_result)
  then show ?thesis by simp
qed

lemma cell30_sizes:
  assumes "cell30 sv s = Inr s'" and "l1_penalty_values s = Some vs"
  shows "sizes s' = (Some (length vs), Some (length vs), Some (arange 150 158), Some (arange 201 210))"
proof -
  from assms(1) obtain vs' s3 where "l1_penalty_values s = Some vs'" and
    a: "for_each (body30_min sv) (List.enumerate 0 (arange 150 158))
       (s\<lparr>l1_penalty_values_min := Some (arange 150 158),
          l1_penalty_values_max := Some (arange 201 210),
          nonzeros_min := Some (replicate (length vs') 0),
          nonzeros_max := Some (replicate (length vs') 0)\<rparr>) = Inr s3"
    and b: "for_each (body30_max sv) (List.enumerate 0 (arange 201 210)) s3 = Inr s'"
    by (rule cell30_steps) blast
  with assms(2) have vs: "vs' = vs" by simp
  from a have "sizes s3 = sizes (s\<lparr>l1_penalty_values_min := Some (arange 150 158),
          l1_penalty_values_max := Some (arange 201 210),
          nonzeros_min := Some (replicate (length vs') 0),
          nonzeros_max := Some (replicate (length vs') 0)\<rparr>)"
    by (rule for_each_preserves [where f = sizes]) (auto dest!: body30_min_result simp: sizes_def)
  moreover from b have "sizes s' = sizes s3"
    by (rule for_each_preserves [where f = sizes]) (auto dest!: body30_max_result simp: sizes_def)
  ultimately show ?thesis by (simp add: sizes_def vs)
qed

lemma linspace_length: "length (linspace a b n) = n"
  by (cases n) (auto simp: linspace_def Let_def)

lemma arange_length: "length (arange a b) = nat (b - a)"
  by (simp add: arange_def)

text \<open>
  The sequences that cells 19, 30 and 36 pass to their loops are literals of 13, 8, 9
  and 20 penalties: no cell passes an empty sequence to a loop.
\<close>

lemma candidate_sequences_lengths:
  "length (logspace 1 7 13) = 13" "length (arange 150 158) = 8"
  "length (arange 201 210) = 9" "length (linspace 154 206 20) = 20"
  by (simp_all add: logspace_def linspace_length arange_length)

text \<open>
  Claim C10. Cell 30 sizes both result buffers by the length of
  \<^verbatim>\<open>l1_penalty_values\<close>. In the order of the document no cell before cell 30
  binds that name, and the only cell that binds it, cell 36, comes later; so from a
  namespace where it is unbound cell 30 raises \<^verbatim>\<open>NameError\<close> and a run of the
  notebook from top to bottom cannot complete. Once cell 36 has bound the name, the
  buffers get 20 entries, while the two scanned ranges have 8 and 9 penalties.
\<close>

theorem buffers_sized_by_unbound_name:
  "(l1_penalty_values s = None \<longrightarrow> exec sv Cell30 s = Inl (NameError ''l1_penalty_values'')) \<and>
   (\<forall>c \<in> set (takeWhile (\<lambda>c. c \<noteq> Cell30) notebook). c \<noteq> Cell36) \<and>
   Cell36 \<in> set (dropWhile (\<lambda>c. c \<noteq> Cell30) notebook) \<and>
   (\<forall>c s'. c \<noteq> Cell36 \<longrightarrow> exec sv c s = Inr s' \<longrightarrow> l1_penalty_values s' = l1_penalty_values s) \<and>
   (l1_penalty_values s = None \<longrightarrow> (\<forall>s'. run sv notebook s \<noteq> Inr s')) \<and>
   (\<forall>s1 s2. exec sv Cell36 s = Inr s1 \<longrightarrow> exec sv Cell30 s1 = Inr s2 \<longrightarrow>
      (\<exists>lo hi bl bh. l1_penalty_values_min s2 = Some lo \<and> l1_penalty_values_max s2 = Some hi \<and>
         nonzeros_min s2 = Some bl \<and> nonzeros_max s2 = Some bh \<and>
         length bl = 20 \<and> length bh = 20 \<and> length lo = 8 \<and> length hi = 9))"
proof (intro conjI allI impI)
  assume "l1_penalty_values s = None"
  then show "exec sv Cell30 s = Inl (NameError ''l1_penalty_values'')"
    by (simp add: cell30_unbound)
next
  show "\<forall>c \<in> set (takeWhile (\<lambda>c. c \<noteq> Cell30) notebook). c \<noteq> Cell36"
    by (simp add: notebook_def)
next
  show "Cell36 \<in> set (dropWhile (\<lambda>c. c \<noteq> Cell30) notebook)"
    by (simp add: notebook_def)
next
  fix c s'
  assume "c \<noteq> Cell36" and "exec sv c s = Inr s'"
  then show "l1_penalty_values s' = l1_penalty_values s" by (rule exec_candidates)
next
  fix s'
  assume "l1_penalty_values s = None"
  then show "run sv notebook s \<noteq> Inr s'"
    by (simp add: notebook_stops split: sum.splits)
next
  fix s1 s2
  assume a: "exec sv Cell36 s = Inr s1" and b: "exec sv Cell30 s1 = Inr s2"
  from a have "l1_penalty_values s1 = Some (linspace 154 206 20)"
    by (simp add: cell36_candidates)
  with b have "sizes s2 = (Some (length (linspace 154 206 20)), Some (length (linspace 154 206 20)),
      Some (arange 150 158), Some (arange 201 210))"
    by (intro cell30_sizes [of sv s1]) simp_all
  then show "\<exists>lo hi bl bh. l1_penalty_values_min s2 = Some lo \<and> l1_penalty_values_max s2 = Some hi \<and>
         nonzeros_min s2 = Some bl \<and> nonzeros_max s2 = Some bh \<and>
         length bl = 20 \<and> length bh = 20 \<and> length lo = 8 \<and> length hi = 9"
    by (auto simp: sizes_def linspace_length arange_length)
qed

subsection \<open>The sample solvers on the zero frame\<close>

lemma zero_price: "column zero_frame ''price'' = Inr [0]"
  by (simp add: column_def zero_frame_def)

lemma zero_columns: "columns zero_frame feature_names = Inr (replicate 17 [0])"
  by (simp add: column_def zero_frame_def feature_names_def numeral_eq_Suc)

lemma transpose_zero: "transpose (replicate 17 [0::real]) = [replicate 17 0]"
  by (simp add: numeral_eq_Suc)

lemma dot_zero: "sum_list (map2 (*) w (replicate n (0::real))) = 0"
proof (induction w arbitrary: n)
  case Nil
  then show ?case by simp
next
  case (Cons a w)
  then show ?case by (cases n) simp_all
qed

lemma linear_predict_zero: "linear_predict w b (replicate 17 [0]) = Inr [b]"
  by (simp add: linear_predict_def transpose_zero dot_zero)

lemma inputs_zeroD:
  assumes "inputs s = inputs zero_kernel"
  shows "training s = Some zero_frame" and "validation s = Some zero_frame"
    and "all_features s = Some feature_names"
  using assms by (simp_all add: inputs_def zero_kernel_def fresh_kernel_def)

lemma flat_fit:
  assumes "inputs s = inputs zero_kernel"
  shows "fit_training flat_solver s a = Inr \<lparr>alpha = a, coef = replicate 17 0, intercept = 0\<rparr>"
  by (simp add: inputs_zeroD [OF assms] fit_training_def zero_columns zero_price flat_solver_def)

lemma flat_score:
  assumes "inputs s = inputs zero_kernel"
  shows "fit_and_score flat_solver s a =
    Inr (\<lparr>alpha = a, coef = replicate 17 0, intercept = 0\<rparr>, [0], 0)"
proof -
  have "predict_validation flat_solver s \<lparr>alpha = a, coef = replicate 17 0, intercept = 0\<rparr> = Inr [0]"
    by (simp add: inputs_zeroD [OF assms] predict_validation_def zero_columns
        flat_solver_def linear_predict_zero)
  moreover have "rss s [0] = Inr 0"
    by (simp add: inputs_zeroD [OF assms] rss_def residuals_def zero_price)
  ultimately show ?thesis
    by (simp add: fit_and_score_def flat_fit [OF assms])
qed

lemma flat_nonzeros: "nonzeros \<lparr>alpha = a, coef = replicate 17 0, intercept = 0\<rparr> = 0"
  by (simp add: nonzeros_def count_nonzero_def)

lemma table_fit:
  assumes "inputs s = inputs zero_kernel"
  shows "fit_training table_solver s a =
    Inr \<lparr>alpha = a, coef = replicate (table_weights a) 1 @ replicate (17 - table_weights a) 0,
         intercept = table_intercept a\<rparr>"
  by (simp add: inputs_zeroD [OF assms] fit_training_def zero_columns zero_price table_solver_def)

lemma table_score:
  assumes "inputs s = inputs zero_kernel"
  shows "fit_and_score table_solver s a =
    Inr (\<lparr>alpha = a, coef = replicate (table_weights a) 1 @ replicate (17 - table_weights a) 0,
         intercept = table_intercept a\<rparr>, [table_intercept a], (table_intercept a)\<^sup>2)"
proof -
  let ?m = "\<lparr>alpha = a, coef = replicate (table_weights a) 1 @ replicate (17 - table_weights a) 0,
         intercept = table_intercept a\<rparr>"
  have "predict_validation table_solver s ?m = Inr [table_intercept a]"
    by (simp add: inputs_zeroD [OF assms] predict_validation_def zero_columns
        table_solver_def linear_predict_zero)
  moreover have "rss s [table_intercept a] = Inr ((table_intercept a)\<^sup>2)"
    by (simp add: inputs_zeroD [OF assms] rss_def residuals_def zero_price)
  ultimately show ?thesis
    by (simp add: fit_and_score_def table_fit [OF assms])
qed

lemma table_nonzeros:
  "table_intercept a \<noteq> 0 \<Longrightarrow>
   nonzeros \<lparr>alpha = a, coef = replicate (table_weights a) 1 @ replicate (17 - table_weights a) 0,
         intercept = table_intercept a\<rparr> = int (table_weights a) + 1"
  by (simp add: nonzeros_def count_nonzero_def)

subsection \<open>What the loops compute when every fit succeeds\<close>

lemma for_each_body36_run:
  assumes "\<forall>p \<in> set ps. \<exists>pr. fit_and_score sv s p = Inr (M p, pr, R p)"
  shows "\<exists>s'. for_each (body36 sv) ps s = Inr s' \<and>
     out s' = out s @ map (\<lambda>p. Fine_line p (R p) (nonzeros (M p))) ps"
  using assms
proof (induction ps arbitrary: s)
  case Nil
  then show ?case by simp
next
  case (Cons p ps)
  from Cons.prems obtain pr where row: "fit_and_score sv s p = Inr (M p, pr, R p)"
    by auto
  let ?s1 = "s\<lparr>l1_penalty := Some p, model := Some (M p), predictions := Some pr,
            RSS := Some (R p), non_zeros := Some (nonzeros (M p)),
            out := out s @ [Fine_line p (R p) (nonzeros (M p))]\<rparr>"
  from row have b: "body36 sv p s = Inr ?s1" by (simp add: body36_def)
  have "inputs ?s1 = inputs s" by (simp add: inputs_def)
  then have "fit_and_score sv ?s1 = fit_and_score sv s"
    by (intro ext fit_and_score_inputs)
  with Cons.prems have "\<forall>q \<in> set ps. \<exists>pr. fit_and_score sv ?s1 q = Inr (M q, pr, R q)"
    by simp
  then obtain s' where "for_each (body36 sv) ps ?s1 = Inr s'"
    and "out s' = out ?s1 @ map (\<lambda>p. Fine_line p (R p) (nonzeros (M p))) ps"
    using Cons.IH by blast
  with b show ?case by simp
qed

lemma cell36_run:
  assumes "\<forall>p \<in> set (linspace 154 206 20). \<exists>pr. fit_and_score sv s p = Inr (M p, pr, R p)"
  shows "\<exists>s'. cell36 sv s = Inr s' \<and>
     printed_by s s' = map (\<lambda>p. Fine_line p (R p) (nonzeros (M p))) (linspace 154 206 20)"
proof -
  let ?s1 = "s\<lparr>l1_penalty_values := Some (linspace 154 206 20)\<rparr>"
  have "inputs ?s1 = inputs s" by (simp add: inputs_def)
  then have "fit_and_score sv ?s1 = fit_and_score sv s"
    by (intro ext fit_and_score_inputs)
  with assms have "\<forall>p \<in> set (linspace 154 206 20). \<exists>pr. fit_and_score sv ?s1 p = Inr (M p, pr, R p)"
    by simp
  then obtain s' where "for_each (body36 sv) (linspace 154 206 20) ?s1 = Inr s'"
    and "out s' = out ?s1 @ map (\<lambda>p. Fine_line p (R p) (nonzeros (M p))) (linspace 154 206 20)"
    using for_each_body36_run by blast
  then show ?thesis by (simp add: cell36_def scan36_def printed_by_def)
qed

lemma for_each_body30_min_run:
  assumes "\<forall>p \<in> set ps. \<exists>m. fit_training sv s (of_int p) = Inr m \<and> nonzeros m = C p"
    and "nonzeros_min s = Some buf" and "n + length ps \<le> length buf"
  shows "\<exists>s'. for_each (body30_min sv) (List.enumerate n ps) s = Inr s' \<and>
     nonzeros_min s' = Some (take n buf @ map C ps @ drop (n + length ps) buf)"
  using assms
proof (induction ps arbitrary: s n buf)
  case Nil
  then show ?case by simp
next
  case (Cons p ps)
  from Cons.prems(1) obtain m where m: "fit_training sv s (of_int p) = Inr m" "nonzeros m = C p"
    by auto
  let ?s1 = "s\<lparr>index := Some n, l1_penalty := Some (of_int p), model := Some m,
            non_zeros := Some (nonzeros m), nonzeros_min := Some (buf[n := nonzeros m])\<rparr>"
  from Cons.prems(3) have n: "n < length buf" by simp
  with m Cons.prems(2) have b: "body30_min sv (n, p) s = Inr ?s1"
    by (simp add: body30_min_def)
  have "inputs ?s1 = inputs s" by (simp add: inputs_def)
  then have "fit_training sv ?s1 = fit_training sv s"
    by (intro ext fit_training_inputs)
  with Cons.prems(1) have 1: "\<forall>q \<in> set ps. \<exists>m. fit_training sv ?s1 (of_int q) = Inr m \<and> nonzeros m = C q"
    by simp
  have 2: "nonzeros_min ?s1 = Some (buf[n := C p])" by (simp add: m)
  from Cons.prems(3) have 3: "Suc n + length ps \<le> length (buf[n := C p])" by simp
  from Cons.IH [OF 1 2 3] obtain s' where
    s': "for_each (body30_min sv) (List.enumerate (Suc n) ps) ?s1 = Inr s'"
    "nonzeros_min s' = Some (take (Suc n) (buf[n := C p]) @ map C ps @
        drop (Suc n + length ps) (buf[n := C p]))"
    by blast
  from n have "take (Suc n) (buf[n := C p]) = take n buf @ [C p]"
    by (simp add: take_Suc_conv_app_nth)
  with s' b show ?case by simp
qed

lemma for_each_body30_max_run:
  assumes "\<forall>p \<in> set ps. \<exists>m. fit_training sv s (of_int p) = Inr m \<and> nonzeros m = C p"
    and "nonzeros_max s = Some buf" and "n + length ps \<le> length buf"
  shows "\<exists>s'. for_each (body30_max sv) (List.enumerate n ps) s = Inr s' \<and>
     nonzeros_max s' = Some (take n buf @ map C ps @ drop (n + length ps) buf)"
  using assms
proof (induction ps arbitrary: s n buf)
  case Nil
  then show ?case by simp
next
  case (Cons p ps)
  from Cons.prems(1) obtain m where m: "fit_training sv s (of_int p) = Inr m" "nonzeros m = C p"
    by auto
  let ?s1 = "s\<lparr>index := Some n, l1_penalty := Some (of_int p), model := Some m,
            non_zeros := Some (nonzeros m), nonzeros_max := Some (buf[n := nonzeros m])\<rparr>"
  from Cons.prems(3) have n: "n < length buf" by simp
  with m Cons.prems(2) have b: "body30_max sv (n, p) s = Inr ?s1"
    by (simp add: body30_max_def)
  have "inputs ?s1 = inputs s" by (simp add: inputs_def)
  then have "fit_training sv ?s1 = fit_training sv s"
    by (intro ext fit_training_inputs)
  with Cons.prems(1) have 1: "\<forall>q \<in> set ps. \<exists>m. fit_training sv ?s1 (of_int q) = Inr m \<and> nonzeros m = C q"
    by simp
  have 2: "nonzeros_max ?s1 = Some (buf[n := C p])" by (simp add: m)
  from Cons.prems(3) have 3: "Suc n + length ps \<le> length (buf[n := C p])" by simp
  from Cons.IH [OF 1 2 3] obtain s' where
    s': "for_each (body30_max sv) (List.enumerate (Suc n) ps) ?s1 = Inr s'"
    "nonzeros_max s' = Some (take (Suc n) (buf[n := C p]) @ map C ps @
        drop (Suc n + length ps) (buf[n := C p]))"
    by blast
  from n have "take (Suc n) (buf[n := C p]) = take n buf @ [C p]"
    by (simp add: take_Suc_conv_app_nth)
  with s' b show ?case by simp
qed


lemma cell30_run:
  assumes fits: "\<forall>p \<in> set (arange 150 158 @ arange 201 210).
            \<exists>m. fit_training sv s (of_int p) = Inr m \<and> nonzeros m = C p"
    and vs: "l1_penalty_values s = Some vs" and len: "9 \<le> length vs"
  shows "\<exists>s'. cell30 sv s = Inr s' \<and>
     nonzeros_min s' = Some (map C (arange 150 158) @ replicate (length vs - 8) 0) \<and>
     nonzeros_max s' = Some (map C (arange 201 210) @ replicate (length vs - 9) 0) \<and>
     l1_penalty_values_min s' = Some (arange 150 158) \<and>
     l1_penalty_values_max s' = Some (arange 201 210) \<and>
     out s' = out s \<and> max_nonzeros s' = max_nonzeros s \<and> inputs s' = inputs s"
proof -
  let ?s2 = "s\<lparr>l1_penalty_values_min := Some (arange 150 158),
          l1_penalty_values_max := Some (arange 201 210),
          nonzeros_min := Some (replicate (length vs) 0),
          nonzeros_max := Some (replicate (length vs) 0)\<rparr>"
  have in2: "inputs ?s2 = inputs s" by (simp add: inputs_def)
  then have "fit_training sv ?s2 = fit_training sv s" by (intro ext fit_training_inputs)
  with fits have 1: "\<forall>p \<in> set (arange 150 158).
      \<exists>m. fit_training sv ?s2 (of_int p) = Inr m \<and> nonzeros m = C p"
    by simp
  have 2: "nonzeros_min ?s2 = Some (replicate (length vs) 0)" by simp
  from len have 3: "0 + length (arange 150 158) \<le> length (replicate (length vs) (0::int))"
    by (simp add: arange_length)
  from for_each_body30_min_run [OF 1 2 3] obtain s3 where
    s3: "for_each (body30_min sv) (List.enumerate 0 (arange 150 158)) ?s2 = Inr s3"
    and buf3: "nonzeros_min s3 = Some (map C (arange 150 158) @ replicate (length vs - 8) 0)"
    by (auto simp: arange_length)
  from s3 have k3: "(kept s3, nonzeros_max s3) = (kept ?s2, nonzeros_max ?s2)"
    by (rule for_each_preserves [where f = "\<lambda>s. (kept s, nonzeros_max s)"])
       (auto dest!: body30_min_result simp: kept_def inputs_def)
  then have "inputs s3 = inputs s" by (simp add: kept_def inputs_def)
  then have "fit_training sv s3 = fit_training sv s" by (intro ext fit_training_inputs)
  with fits have 4: "\<forall>p \<in> set (arange 201 210).
      \<exists>m. fit_training sv s3 (of_int p) = Inr m \<and> nonzeros m = C p"
    by simp
  from k3 have 5: "nonzeros_max s3 = Some (replicate (length vs) 0)" by simp
  from len have 6: "0 + length (arange 201 210) \<le> length (replicate (length vs) (0::int))"
    by (simp add: arange_length)
  from for_each_body30_max_run [OF 4 5 6] obtain s' where
    s': "for_each (body30_max sv) (List.enumerate 0 (arange 201 210)) s3 = Inr s'"
    and buf': "nonzeros_max s' = Some (map C (arange 201 210) @ replicate (length vs - 9) 0)"
    by (auto simp: arange_length)
  from s' have k': "(kept s', nonzeros_min s') = (kept s3, nonzeros_min s3)"
    by (rule for_each_preserves [where f = "\<lambda>s. (kept s, nonzeros_min s)"])
       (auto dest!: body30_max_result simp: kept_def inputs_def)
  from k3 have "l1_penalty_values_max s3 = Some (arange 201 210)" by (simp add: kept_def)
  with s3 s' vs have "cell30 sv s = Inr s'"
    by (simp add: cell30_def scan30_min_def scan30_max_def)
  with k3 k' buf3 buf' show ?thesis by (simp add: kept_def inputs_def)
qed

lemma zip_map_prefix: "zip ps (map C ps @ zs) = map (\<lambda>p. (p, C p)) ps"
  by (induction ps) simp_all

lemma coarse_run:
  assumes fits: "\<forall>p \<in> set (arange 150 158 @ arange 201 210).
            \<exists>m. fit_training sv s (of_int p) = Inr m \<and> nonzeros m = C p"
    and vs: "l1_penalty_values s = Some vs" and len: "9 \<le> length vs"
  shows "\<exists>s'. run sv [Cell26, Cell30, Cell31, Cell32, Cell33] s = Inr s' \<and>
     printed_by s s' = [Pairs (map (\<lambda>p. (p, C p)) (arange 150 158)),
                        Pairs (map (\<lambda>p. (p, C p)) (arange 201 210))] \<and>
     max_nonzeros s' = Some 7 \<and> l1_penalty_min s' = Some 153 \<and> l1_penalty_max s' = Some 207 \<and>
     inputs s' = inputs s"
proof -
  let ?s0 = "s\<lparr>max_nonzeros := Some 7\<rparr>"
  have "inputs ?s0 = inputs s" by (simp add: inputs_def)
  then have "fit_training sv ?s0 = fit_training sv s" by (intro ext fit_training_inputs)
  with fits have 1: "\<forall>p \<in> set (arange 150 158 @ arange 201 210).
            \<exists>m. fit_training sv ?s0 (of_int p) = Inr m \<and> nonzeros m = C p"
    by simp
  from vs have 2: "l1_penalty_values ?s0 = Some vs" by simp
  from cell30_run [OF 1 2 len] obtain s1 where
    s1: "cell30 sv ?s0 = Inr s1"
    "nonzeros_min s1 = Some (map C (arange 150 158) @ replicate (length vs - 8) 0)"
    "nonzeros_max s1 = Some (map C (arange 201 210) @ replicate (length vs - 9) 0)"
    "l1_penalty_values_min s1 = Some (arange 150 158)"
    "l1_penalty_values_max s1 = Some (arange 201 210)"
    "out s1 = out ?s0" "max_nonzeros s1 = max_nonzeros ?s0" "inputs s1 = inputs ?s0"
    by blast
  then show ?thesis
    by (simp add: run_def cell26_def cell31_def cell32_def cell33_def printed_by_def
        zip_map_prefix inputs_def)
qed

subsection \<open>The table solver reproduces the stored outputs\<close>

lemma table_reference_fine:
  "\<forall>(p, r, c) \<in> set (zip (linspace 154 206 20) (map snd cell36_output)).
      table_weights p = 6 \<and> c = 7 \<and> table_intercept p \<noteq> 0 \<and> \<bar>(table_intercept p)\<^sup>2 - r\<bar> \<le> 500"
  unfolding fine_candidates
  by (simp add: table_intercept_def table_roots_def cell36_output_def table_weights_def power2_eq_square)


lemma table_reference_coarse:
  "\<forall>(p, c) \<in> set (cell31_output @ cell32_output).
      table_intercept (of_int p) \<noteq> 0 \<and> int (table_weights (of_int p)) + 1 = c"
  by (simp add: cell31_output_def cell32_output_def table_intercept_def table_weights_def
      table_roots_def)

lemma table_reference:
  assumes "inputs s = inputs zero_kernel"
  shows "reference_run table_solver s"
  unfolding reference_run_def
proof (intro conjI ballI)
  fix x
  assume x: "x \<in> set (cell31_output @ cell32_output)"
  obtain p c where pc: "x = (p, c)" by (cases x)
  from table_reference_coarse x have "case x of (p, c) \<Rightarrow>
      table_intercept (of_int p) \<noteq> 0 \<and> int (table_weights (of_int p)) + 1 = c"
    by (rule bspec)
  with pc have
    "table_intercept (of_int p) \<noteq> 0" "int (table_weights (of_int p)) + 1 = c"
    by simp_all
  with pc show "case x of (p, c) \<Rightarrow>
      \<exists>m. fit_training table_solver s (of_int p) = Inr m \<and> nonzeros m = c"
    by (simp add: table_fit [OF assms] table_nonzeros)
next
  fix x
  assume x: "x \<in> set (zip (linspace 154 206 20) (map snd cell36_output))"
  obtain p r c where prc: "x = (p, r, c)" by (cases x)
  from table_reference_fine x have "case x of (p, r, c) \<Rightarrow>
      table_weights p = 6 \<and> c = 7 \<and> table_intercept p \<noteq> 0 \<and>
      \<bar>(table_intercept p)\<^sup>2 - r\<bar> \<le> 500"
    by (rule bspec)
  with prc have
    "table_weights p = 6" "c = 7" "table_intercept p \<noteq> 0" "\<bar>(table_intercept p)\<^sup>2 - r\<bar> \<le> 500"
    by simp_all
  with prc show "case x of (p, r, c) \<Rightarrow>
      \<exists>m pr r'. fit_and_score table_solver s p = Inr (m, pr, r') \<and> nonzeros m = c \<and>
          \<bar>r' - r\<bar> \<le> 500"
    by (simp add: table_score [OF assms] nonzeros_def count_nonzero_def)
qed

subsection \<open>The coarse scan on the reference run\<close>

lemma reference_coarse_counts:
  assumes "reference_run sv s"
  shows "\<forall>p \<in> set (arange 150 158 @ arange 201 210).
     \<exists>m. fit_training sv s (of_int p) = Inr m \<and>
         nonzeros m = (if p \<le> 153 then 8 else if p \<le> 206 then 7 else 6)"
  using assms
  by (simp add: reference_run_def cell31_output_def cell32_output_def arange_def)

lemma coarse_reference:
  assumes "reference_run sv s" and "l1_penalty_values s = Some vs" and "9 \<le> length vs"
  shows "\<exists>s'. run sv [Cell26, Cell30, Cell31, Cell32, Cell33] s = Inr s' \<and>
     printed_by s s' = [Pairs cell31_output, Pairs cell32_output] \<and>
     max_nonzeros s' = Some 7 \<and> l1_penalty_min s' = Some 153 \<and> l1_penalty_max s' = Some 207 \<and>
     inputs s' = inputs s"
proof -
  have "map (\<lambda>p. (p, if p \<le> 153 then 8 else if p \<le> 206 then 7 else (6::int))) (arange 150 158)
          = cell31_output"
    and "map (\<lambda>p. (p, if p \<le> 153 then 8 else if p \<le> 206 then 7 else (6::int))) (arange 201 210)
          = cell32_output"
    by (simp_all add: arange_def cell31_output_def cell32_output_def)
  with coarse_run [OF reference_coarse_counts [OF assms(1)] assms(2,3)] show ?thesis
    by simp
qed

lemma rerun_kernel_inputs: "inputs rerun_kernel = inputs zero_kernel"
  by (simp add: rerun_kernel_def inputs_def)

lemma rerun_kernel_candidates:
  "l1_penalty_values rerun_kernel = Some (linspace 154 206 20)"
  by (simp add: rerun_kernel_def)

text \<open>
  Claim C2, as amended. On the reference run the bracket of cell 33 is
  \<open>min = 153\<close>, the largest scanned penalty whose count is strictly greater than
  the target, and \<open>max = 207\<close>, the smallest scanned penalty whose count is strictly
  smaller than the target. The bracket is a pair of literals: cell 33 assigns them
  in every namespace and has no failure of its own.
\<close>

theorem bracket_strict_on_reference:
  assumes "reference_run sv s" and "l1_penalty_values s = Some vs" and "9 \<le> length vs"
  shows "(\<exists>s' lo hi mn mx t.
       run sv [Cell26, Cell30, Cell31, Cell32, Cell33] s = Inr s' \<and>
       printed_by s s' = [Pairs lo, Pairs hi] \<and>
       max_nonzeros s' = Some t \<and> l1_penalty_min s' = Some mn \<and> l1_penalty_max s' = Some mx \<and>
       (\<exists>c. (mn, c) \<in> set (lo @ hi) \<and> t < c) \<and>
       (\<forall>(p, c) \<in> set (lo @ hi). t < c \<longrightarrow> p \<le> mn) \<and>
       (\<exists>c. (mx, c) \<in> set (lo @ hi) \<and> c < t) \<and>
       (\<forall>(p, c) \<in> set (lo @ hi). c < t \<longrightarrow> mx \<le> p)) \<and>
     (\<forall>s0. exec sv Cell33 s0 =
        Inr (s0\<lparr>l1_penalty_min := Some 153, l1_penalty_max := Some 207\<rparr>))"
proof -
  from coarse_reference [OF assms] obtain s' where
    s': "run sv [Cell26, Cell30, Cell31, Cell32, Cell33] s = Inr s'"
    "printed_by s s' = [Pairs cell31_output, Pairs cell32_output]"
    "max_nonzeros s' = Some 7" "l1_penalty_min s' = Some 153" "l1_penalty_max s' = Some 207"
    by blast
  have "(\<exists>c. (153, c) \<in> set (cell31_output @ cell32_output) \<and> 7 < c) \<and>
       (\<forall>(p, c) \<in> set (cell31_output @ cell32_output). 7 < c \<longrightarrow> p \<le> 153) \<and>
       (\<exists>c. (207, c) \<in> set (cell31_output @ cell32_output) \<and> c < 7) \<and>
       (\<forall>(p, c) \<in> set (cell31_output @ cell32_output). c < 7 \<longrightarrow> 207 \<le> p)"
    by (simp add: cell31_output_def cell32_output_def)
  with s' show ?thesis by (auto simp: cell33_def)
qed

text \<open>
  Claim C5, as amended. On the reference run the bracket satisfies
  \<open>count(min) \<ge> target \<ge> count(max)\<close>, and over the scanned candidates the
  penalties increase while the counts never increase.
\<close>

theorem bracket_within_counts_on_reference:
  assumes "reference_run sv s" and "l1_penalty_values s = Some vs" and "9 \<le> length vs"
  shows "\<exists>s' lo hi mn mx t cmn cmx.
       run sv [Cell26, Cell30, Cell31, Cell32, Cell33] s = Inr s' \<and>
       printed_by s s' = [Pairs lo, Pairs hi] \<and>
       max_nonzeros s' = Some t \<and> l1_penalty_min s' = Some mn \<and> l1_penalty_max s' = Some mx \<and>
       (mn, cmn) \<in> set (lo @ hi) \<and> (mx, cmx) \<in> set (lo @ hi) \<and> t \<le> cmn \<and> cmx \<le> t \<and>
       sorted_wrt (\<lambda>(p, c) (p', c'). p < p' \<and> c' \<le> c) (lo @ hi)"
proof -
  from coarse_reference [OF assms] obtain s' where
    s': "run sv [Cell26, Cell30, Cell31, Cell32, Cell33] s = Inr s'"
    "printed_by s s' = [Pairs cell31_output, Pairs cell32_output]"
    "max_nonzeros s' = Some 7" "l1_penalty_min s' = Some 153" "l1_penalty_max s' = Some 207"
    by blast
  have "(153, 8) \<in> set (cell31_output @ cell32_output) \<and>
        (207, 6) \<in> set (cell31_output @ cell32_output) \<and>
        sorted_wrt (\<lambda>(p, c) (p', c'). p < p' \<and> c' \<le> c) (cell31_output @ cell32_output)"
    by (simp add: cell31_output_def cell32_output_def)
  with s' show ?thesis by (intro exI [of _ s'] exI [of _ cell31_output] exI [of _ cell32_output]
        exI [of _ 153] exI [of _ 207] exI [of _ 7] exI [of _ 8] exI [of _ 6]) simp
qed

subsection \<open>The fine candidates and the frames\<close>

lemma zero_kernel_unbound: "l1_penalty_values zero_kernel = None"
  by (simp add: zero_kernel_def fresh_kernel_def)

lemma flat_cell36:
  assumes "inputs s = inputs zero_kernel"
  shows "\<exists>s'. cell36 flat_solver s = Inr s' \<and>
     printed_by s s' = map (\<lambda>p. Fine_line p 0 0) (linspace 154 206 20)"
proof -
  have "\<forall>p \<in> set (linspace 154 206 20). \<exists>pr. fit_and_score flat_solver s p =
      Inr (\<lparr>alpha = p, coef = replicate 17 0, intercept = 0\<rparr>, pr, 0)"
    by (simp add: flat_score [OF assms])
  from cell36_run [OF this] show ?thesis by (simp add: flat_nonzeros)
qed

lemma flat_coarse:
  assumes "inputs s = inputs zero_kernel" and "l1_penalty_values s = Some vs" and "9 \<le> length vs"
  shows "\<exists>s'. run flat_solver [Cell26, Cell30, Cell31, Cell32, Cell33] s = Inr s' \<and>
     printed_by s s' = [Pairs (map (\<lambda>p. (p, 0)) (arange 150 158)),
                        Pairs (map (\<lambda>p. (p, 0)) (arange 201 210))] \<and>
     max_nonzeros s' = Some 7 \<and> l1_penalty_min s' = Some 153 \<and> l1_penalty_max s' = Some 207"
proof -
  have "\<forall>p \<in> set (arange 150 158 @ arange 201 210).
      \<exists>m. fit_training flat_solver s (of_int p) = Inr m \<and> nonzeros m = 0"
    by (simp add: flat_fit [OF assms(1)] flat_nonzeros)
  from coarse_run [OF this assms(2,3)] show ?thesis by blast
qed

lemma cell36_bracket:
  assumes "cell36 sv s = Inr s'"
  shows "l1_penalty_min s' = l1_penalty_min s \<and> l1_penalty_max s' = l1_penalty_max s"
proof -
  let ?s1 = "s\<lparr>l1_penalty_values := Some (linspace 154 206 20)\<rparr>"
  from assms have "for_each (body36 sv) (linspace 154 206 20) ?s1 = Inr s'"
    by (simp add: cell36_def scan36_def)
  then have "(l1_penalty_min s', l1_penalty_max s') = (l1_penalty_min ?s1, l1_penalty_max ?s1)"
    by (rule for_each_preserves [where f = "\<lambda>s. (l1_penalty_min s, l1_penalty_max s)"])
       (auto dest!: body36_result)
  then show ?thesis by simp
qed

lemma for_each_Nil: "for_each body [] = Inr"
  by (rule ext) simp

lemma bindE_return: "bindE m Inr = m"
  by (cases m) simp_all

lemma bracket_then_fine:
  assumes "run sv [Cell33, Cell36] s = Inr s'"
  shows "l1_penalty_values s' = Some (linspace 154 206 20) \<and>
     l1_penalty_min s' = Some 153 \<and> l1_penalty_max s' = Some 207"
proof -
  let ?s1 = "s\<lparr>l1_penalty_min := Some 153, l1_penalty_max := Some 207\<rparr>"
  from assms have c: "cell36 sv ?s1 = Inr s'"
    by (simp add: run_def cell33_def for_each_Nil bindE_return)
  from cell36_candidates [OF c] cell36_bracket [OF c] show ?thesis by simp
qed

text \<open>
  Claim C6, as amended. The candidates of the fine phase are an increasing sequence
  of 20 penalties, evenly spaced up to the rounding of float64 (every difference of
  two consecutive candidates is within \<open>1 / 2 ^ 45\<close> of \<open>52 / 19\<close>), whose
  endpoints are the literals 154 and 206, both included: the first is \<open>min + 1\<close>
  and the last is \<open>max - 1\<close> for the bracket of cell 33, not \<open>min\<close> and \<open>max\<close>
  themselves.
\<close>

theorem fine_candidates_inside_bracket:
  assumes "run sv [Cell33, Cell36] s = Inr s'"
  shows "\<exists>vs mn mx. l1_penalty_values s' = Some vs \<and>
     l1_penalty_min s' = Some mn \<and> l1_penalty_max s' = Some mx \<and>
     length vs = 20 \<and> sorted_wrt (<) vs \<and>
     (\<forall>i<19. \<bar>vs ! Suc i - vs ! i - 52 / 19\<bar> \<le> 1 / 2 ^ 45) \<and>
     hd vs = 154 \<and> last vs = 206 \<and> hd vs = of_int mn + 1 \<and> last vs = of_int mx - 1"
proof -
  from bracket_then_fine [OF assms] have
    "l1_penalty_values s' = Some (linspace 154 206 20)"
    "l1_penalty_min s' = Some 153" "l1_penalty_max s' = Some 207"
    by simp_all
  moreover have "length (linspace 154 206 20) = 20" by (rule linspace_length)
  moreover note fine_candidates_ends fine_candidates_sorted fine_candidates_spacing
  ultimately show ?thesis
    by (intro exI [of _ "linspace 154 206 20"] exI [of _ 153] exI [of _ 207]) simp
qed

lemma flat_bracket_then_fine:
  "\<exists>s'. run flat_solver [Cell33, Cell36] zero_kernel = Inr s'"
proof -
  let ?s1 = "zero_kernel\<lparr>l1_penalty_min := Some 153, l1_penalty_max := Some 207\<rparr>"
  have "inputs ?s1 = inputs zero_kernel" by (simp add: inputs_def)
  from flat_cell36 [OF this] show ?thesis
    by (auto simp: run_def cell33_def for_each_Nil bindE_return)
qed

theorem fine_candidates_inside_bracket_witness:
  "\<exists>s' vs mn mx. run flat_solver [Cell33, Cell36] zero_kernel = Inr s' \<and>
     l1_penalty_values s' = Some vs \<and>
     l1_penalty_min s' = Some mn \<and> l1_penalty_max s' = Some mx \<and>
     length vs = 20 \<and> sorted_wrt (<) vs \<and>
     (\<forall>i<19. \<bar>vs ! Suc i - vs ! i - 52 / 19\<bar> \<le> 1 / 2 ^ 45) \<and>
     hd vs = 154 \<and> last vs = 206 \<and> hd vs = of_int mn + 1 \<and> last vs = of_int mx - 1"
proof -
  from flat_bracket_then_fine obtain s' where
    r: "run flat_solver [Cell33, Cell36] zero_kernel = Inr s'" ..
  from fine_candidates_inside_bracket [OF r] r show ?thesis by blast
qed

text \<open>
  Claim C6 as worded fails: after cells 33 and 36 the first candidate is not
  \<open>min = 153\<close> and the last is not \<open>max = 207\<close>.
\<close>

theorem fine_endpoints_counterexample:
  "\<exists>s' vs. run flat_solver [Cell33, Cell36] zero_kernel = Inr s' \<and>
     l1_penalty_values s' = Some vs \<and>
     l1_penalty_min s' = Some 153 \<and> l1_penalty_max s' = Some 207 \<and>
     hd vs \<noteq> 153 \<and> last vs \<noteq> 207"
proof -
  from flat_bracket_then_fine obtain s' where
    r: "run flat_solver [Cell33, Cell36] zero_kernel = Inr s'" ..
  from bracket_then_fine [OF r] r show ?thesis
    by (auto simp: fine_candidates_ends)
qed



theorem buffers_sized_by_unbound_name_witness:
  "exec flat_solver Cell30 zero_kernel = Inl (NameError ''l1_penalty_values'') \<and>
   (\<exists>s1 s2 lo hi bl bh.
      exec flat_solver Cell36 zero_kernel = Inr s1 \<and> exec flat_solver Cell30 s1 = Inr s2 \<and>
      l1_penalty_values_min s2 = Some lo \<and> l1_penalty_values_max s2 = Some hi \<and>
      nonzeros_min s2 = Some bl \<and> nonzeros_max s2 = Some bh \<and>
      length bl = 20 \<and> length bh = 20 \<and> length lo = 8 \<and> length hi = 9)"
proof -
  note claim = buffers_sized_by_unbound_name [of zero_kernel flat_solver]
  from claim zero_kernel_unbound have 1:
    "exec flat_solver Cell30 zero_kernel = Inl (NameError ''l1_penalty_values'')"
    by blast
  from flat_cell36 [OF refl] obtain s1 where s1: "exec flat_solver Cell36 zero_kernel = Inr s1"
    by auto
  then have in1: "inputs s1 = inputs zero_kernel" by (rule exec_inputs)
  from s1 have vs: "l1_penalty_values s1 = Some (linspace 154 206 20)"
    by (simp add: cell36_candidates)
  have "\<forall>p \<in> set (arange 150 158 @ arange 201 210).
      \<exists>m. fit_training flat_solver s1 (of_int p) = Inr m \<and> nonzeros m = 0"
    by (simp add: flat_fit [OF in1] flat_nonzeros)
  from cell30_run [OF this vs] obtain s2 where s2: "exec flat_solver Cell30 s1 = Inr s2"
    by (auto simp: linspace_length)
  from claim s1 s2 have "\<exists>lo hi bl bh.
      l1_penalty_values_min s2 = Some lo \<and> l1_penalty_values_max s2 = Some hi \<and>
      nonzeros_min s2 = Some bl \<and> nonzeros_max s2 = Some bh \<and>
      length bl = 20 \<and> length bh = 20 \<and> length lo = 8 \<and> length hi = 9"
    by blast
  with 1 s1 s2 show ?thesis by blast
qed

subsection \<open>Instances on the table solver, and where the worded claims fail\<close>

lemma rerun_kernel_length: "9 \<le> length (linspace 154 206 20)"
  by (simp add: linspace_length)

theorem bracket_strict_on_reference_witness:
  "(\<exists>s' lo hi mn mx t.
       run table_solver [Cell26, Cell30, Cell31, Cell32, Cell33] rerun_kernel = Inr s' \<and>
       printed_by rerun_kernel s' = [Pairs lo, Pairs hi] \<and>
       max_nonzeros s' = Some t \<and> l1_penalty_min s' = Some mn \<and> l1_penalty_max s' = Some mx \<and>
       (\<exists>c. (mn, c) \<in> set (lo @ hi) \<and> t < c) \<and>
       (\<forall>(p, c) \<in> set (lo @ hi). t < c \<longrightarrow> p \<le> mn) \<and>
       (\<exists>c. (mx, c) \<in> set (lo @ hi) \<and> c < t) \<and>
       (\<forall>(p, c) \<in> set (lo @ hi). c < t \<longrightarrow> mx \<le> p)) \<and>
     (\<forall>s0. exec table_solver Cell33 s0 =
        Inr (s0\<lparr>l1_penalty_min := Some 153, l1_penalty_max := Some 207\<rparr>))"
  by (rule bracket_strict_on_reference
      [OF table_reference [OF rerun_kernel_inputs] rerun_kernel_candidates rerun_kernel_length])

theorem bracket_within_counts_on_reference_witness:
  "\<exists>s' lo hi mn mx t cmn cmx.
       run table_solver [Cell26, Cell30, Cell31, Cell32, Cell33] rerun_kernel = Inr s' \<and>
       printed_by rerun_kernel s' = [Pairs lo, Pairs hi] \<and>
       max_nonzeros s' = Some t \<and> l1_penalty_min s' = Some mn \<and> l1_penalty_max s' = Some mx \<and>
       (mn, cmn) \<in> set (lo @ hi) \<and> (mx, cmx) \<in> set (lo @ hi) \<and> t \<le> cmn \<and> cmx \<le> t \<and>
       sorted_wrt (\<lambda>(p, c) (p', c'). p < p' \<and> c' \<le> c) (lo @ hi)"
  by (rule bracket_within_counts_on_reference
      [OF table_reference [OF rerun_kernel_inputs] rerun_kernel_candidates rerun_kernel_length])

lemma spec_bracket_stored: "spec_bracket 7 (cell31_output @ cell32_output) = Some (206, 154)"
  by (simp add: spec_bracket_def cell31_output_def cell32_output_def)

lemma spec_bracket_flat:
  "spec_bracket 7 (map (\<lambda>p. (p, 0)) (arange 150 158) @ map (\<lambda>p. (p, 0)) (arange 201 210)) = None"
  by (simp add: spec_bracket_def arange_def)

text \<open>
  The rule of claim C2 as worded fails on the code. With the stored counts it gives
  \<open>min = 206\<close> and \<open>max = 154\<close>, not the bracket \<open>(153, 207)\<close> of cell 33; and
  where no candidate reaches the target the rule asks for a failure, while cell 33
  still assigns its two literals.
\<close>

theorem bracket_rule_counterexample:
  "(\<exists>s' lo hi.
      run table_solver [Cell26, Cell30, Cell31, Cell32, Cell33] rerun_kernel = Inr s' \<and>
      printed_by rerun_kernel s' = [Pairs lo, Pairs hi] \<and>
      l1_penalty_min s' = Some 153 \<and> l1_penalty_max s' = Some 207 \<and>
      spec_bracket 7 (lo @ hi) = Some (206, 154)) \<and>
   (\<exists>s' lo hi.
      run flat_solver [Cell26, Cell30, Cell31, Cell32, Cell33] rerun_kernel = Inr s' \<and>
      printed_by rerun_kernel s' = [Pairs lo, Pairs hi] \<and>
      l1_penalty_min s' = Some 153 \<and> l1_penalty_max s' = Some 207 \<and>
      spec_bracket 7 (lo @ hi) = None)"
proof
  from coarse_reference
    [OF table_reference [OF rerun_kernel_inputs] rerun_kernel_candidates rerun_kernel_length]
  show "\<exists>s' lo hi.
      run table_solver [Cell26, Cell30, Cell31, Cell32, Cell33] rerun_kernel = Inr s' \<and>
      printed_by rerun_kernel s' = [Pairs lo, Pairs hi] \<and>
      l1_penalty_min s' = Some 153 \<and> l1_penalty_max s' = Some 207 \<and>
      spec_bracket 7 (lo @ hi) = Some (206, 154)"
    using spec_bracket_stored by auto
next
  from flat_coarse [OF rerun_kernel_inputs rerun_kernel_candidates rerun_kernel_length]
  show "\<exists>s' lo hi.
      run flat_solver [Cell26, Cell30, Cell31, Cell32, Cell33] rerun_kernel = Inr s' \<and>
      printed_by rerun_kernel s' = [Pairs lo, Pairs hi] \<and>
      l1_penalty_min s' = Some 153 \<and> l1_penalty_max s' = Some 207 \<and>
      spec_bracket 7 (lo @ hi) = None"
    using spec_bracket_flat by auto
qed

text \<open>
  Claim C5 as worded fails off the reference data: where every weight vanishes at
  the scanned penalties, the count at \<open>min = 153\<close> is 0, below the target 7.
\<close>

theorem bracket_counts_counterexample:
  "\<exists>s' lo hi.
      run flat_solver [Cell26, Cell30, Cell31, Cell32, Cell33] rerun_kernel = Inr s' \<and>
      printed_by rerun_kernel s' = [Pairs lo, Pairs hi] \<and>
      max_nonzeros s' = Some 7 \<and> l1_penalty_min s' = Some 153 \<and>
      (153, 0) \<in> set (lo @ hi) \<and> \<not> (\<exists>c. (153, c) \<in> set (lo @ hi) \<and> 7 \<le> c)"
proof -
  have "(153, 0) \<in> set (map (\<lambda>p. (p, 0)) (arange 150 158) @ map (\<lambda>p. (p, 0::int)) (arange 201 210))"
    and "\<not> (\<exists>c. (153, c) \<in> set (map (\<lambda>p. (p, 0)) (arange 150 158) @
            map (\<lambda>p. (p, 0::int)) (arange 201 210)) \<and> 7 \<le> c)"
    by (auto simp: arange_def)
  with flat_coarse [OF rerun_kernel_inputs rerun_kernel_candidates rerun_kernel_length]
  show ?thesis by auto
qed

subsection \<open>The coarse scan reads a name that the search does not set\<close>

lemma flat_search:
  assumes "inputs s = inputs zero_kernel" and "l1_penalty_values s = Some vs" and "9 \<le> length vs"
  shows "\<exists>s'. run flat_solver search s = Inr s'"
proof -
  define pre where "pre = s\<lparr>max_nonzeros := Some 7,
    out := out s @ [Shown_ints (map2 (+) (arange 100 102) (arange 0 2)),
                    Shown_reals (logspace 2.1 2.4 20)]\<rparr>"
  have r: "run flat_solver search s =
      bindE (cell30 flat_solver pre) (run flat_solver [Cell31, Cell32, Cell33, Cell36, Cell38])"
    by (simp add: search_def run_Cons cell26_def cell28_def cell29_def pre_def)
  from assms(1) have in0: "inputs pre = inputs zero_kernel" by (simp add: pre_def inputs_def)
  have fits: "\<forall>p \<in> set (arange 150 158 @ arange 201 210).
      \<exists>m. fit_training flat_solver pre (of_int p) = Inr m \<and> nonzeros m = 0"
    by (simp add: flat_fit [OF in0] flat_nonzeros)
  from assms(2) have "l1_penalty_values pre = Some vs" by (simp add: pre_def)
  from cell30_run [OF fits this assms(3)] obtain s3 where
    s3: "cell30 flat_solver pre = Inr s3"
    and bound: "\<exists>lo bl. l1_penalty_values_min s3 = Some lo \<and> nonzeros_min s3 = Some bl"
      "\<exists>hi bh. l1_penalty_values_max s3 = Some hi \<and> nonzeros_max s3 = Some bh"
    and in3: "inputs s3 = inputs pre"
    by blast
  from bound obtain s4 where
    s4: "run flat_solver [Cell31, Cell32, Cell33] s3 = Inr s4" and in4: "inputs s4 = inputs s3"
    by (auto simp: run_Cons run_def cell31_def cell32_def cell33_def inputs_def)
  from in4 in3 in0 have "inputs s4 = inputs zero_kernel" by simp
  from flat_cell36 [OF this] obtain s5 where s5: "cell36 flat_solver s4 = Inr s5" by blast
  then have "inputs s5 = inputs s4" by (rule cell36_inputs)
  with in4 in3 in0 have "inputs s5 = inputs zero_kernel" by simp
  then have "\<exists>s6. cell38 flat_solver s5 = Inr s6" by (simp add: cell38_def flat_fit)
  with s5 have "\<exists>s6. run flat_solver [Cell36, Cell38] s4 = Inr s6"
    by (auto simp: run_Cons run_def)
  with s4 have "\<exists>s6. run flat_solver ([Cell31, Cell32, Cell33] @ [Cell36, Cell38]) s3 = Inr s6"
    by (simp only: run_append bindE.simps)
  with s3 show ?thesis unfolding r by simp
qed

text \<open>
  Claim C9 fails on the coarse scan. The fresh namespace and the namespace in which
  an earlier run of cell 36 has left \<^verbatim>\<open>l1_penalty_values\<close> bound hold the same
  training frame, validation frame and feature list; the candidates and the target
  are literals of the cells; the solver is the same. Yet cell 30 raises
  \<^verbatim>\<open>NameError\<close> in the first and completes in the second, also when the second
  is the namespace that cell 36 itself leaves behind. So the coarse scan ends in the
  exception in the first and prints its seventeen pairs in the second, and the
  two-phase search as a whole ends in the exception in the first and completes in
  the second.
\<close>

theorem coarse_scan_reads_stale_name:
  "rerun_kernel = zero_kernel\<lparr>l1_penalty_values := Some (linspace 154 206 20)\<rparr> \<and>
   inputs zero_kernel = inputs rerun_kernel \<and>
   exec flat_solver Cell30 zero_kernel = Inl (NameError ''l1_penalty_values'') \<and>
   (\<exists>s'. exec flat_solver Cell30 rerun_kernel = Inr s') \<and>
   (\<exists>s1 s2. exec flat_solver Cell36 zero_kernel = Inr s1 \<and> inputs s1 = inputs zero_kernel \<and>
      exec flat_solver Cell30 s1 = Inr s2) \<and>
   outcome zero_kernel (run flat_solver [Cell26, Cell30, Cell31, Cell32, Cell33] zero_kernel) =
     Inl (NameError ''l1_penalty_values'') \<and>
   outcome rerun_kernel (run flat_solver [Cell26, Cell30, Cell31, Cell32, Cell33] rerun_kernel) =
     Inr [Pairs [(150, 0), (151, 0), (152, 0), (153, 0), (154, 0), (155, 0), (156, 0), (157, 0)],
          Pairs [(201, 0), (202, 0), (203, 0), (204, 0), (205, 0), (206, 0), (207, 0), (208, 0),
                 (209, 0)]] \<and>
   outcome zero_kernel (run flat_solver search zero_kernel) =
     Inl (NameError ''l1_penalty_values'') \<and>
   (\<exists>ls. outcome rerun_kernel (run flat_solver search rerun_kernel) = Inr ls)"
proof (intro conjI)
  show "rerun_kernel = zero_kernel\<lparr>l1_penalty_values := Some (linspace 154 206 20)\<rparr>"
    by (rule rerun_kernel_def)
  show "inputs zero_kernel = inputs rerun_kernel"
    by (simp add: rerun_kernel_inputs)
  show "exec flat_solver Cell30 zero_kernel = Inl (NameError ''l1_penalty_values'')"
    by (simp add: cell30_unbound zero_kernel_unbound)
  have fits: "\<forall>p \<in> set (arange 150 158 @ arange 201 210).
      \<exists>m. fit_training flat_solver s (of_int p) = Inr m \<and> nonzeros m = 0"
    if "inputs s = inputs zero_kernel" for s
    by (simp add: flat_fit [OF that] flat_nonzeros)
  from cell30_run [OF fits [OF rerun_kernel_inputs] rerun_kernel_candidates rerun_kernel_length]
  show "\<exists>s'. exec flat_solver Cell30 rerun_kernel = Inr s'"
    by auto
  from flat_cell36 [OF refl] obtain s1 where s1: "exec flat_solver Cell36 zero_kernel = Inr s1"
    by auto
  then have in1: "inputs s1 = inputs zero_kernel" by (rule exec_inputs)
  from s1 have "l1_penalty_values s1 = Some (linspace 154 206 20)"
    by (simp add: cell36_candidates)
  from cell30_run [OF fits [OF in1] this rerun_kernel_length]
  obtain s2 where "exec flat_solver Cell30 s1 = Inr s2" by auto
  with s1 in1 show "\<exists>s1 s2. exec flat_solver Cell36 zero_kernel = Inr s1 \<and>
      inputs s1 = inputs zero_kernel \<and> exec flat_solver Cell30 s1 = Inr s2"
    by blast
  have "l1_penalty_values (zero_kernel\<lparr>max_nonzeros := Some 7\<rparr>) = None"
    by (simp add: zero_kernel_unbound)
  then have "cell30 flat_solver (zero_kernel\<lparr>max_nonzeros := Some 7\<rparr>) =
      Inl (NameError ''l1_penalty_values'')"
    by (rule cell30_unbound)
  then have "run flat_solver [Cell26, Cell30, Cell31, Cell32, Cell33] zero_kernel =
      Inl (NameError ''l1_penalty_values'')"
    by (simp add: run_Cons cell26_def)
  then show "outcome zero_kernel
      (run flat_solver [Cell26, Cell30, Cell31, Cell32, Cell33] zero_kernel) =
      Inl (NameError ''l1_penalty_values'')"
    by (simp add: outcome_def)
  from flat_coarse [OF rerun_kernel_inputs rerun_kernel_candidates rerun_kernel_length]
  obtain s' where
    "run flat_solver [Cell26, Cell30, Cell31, Cell32, Cell33] rerun_kernel = Inr s'"
    "printed_by rerun_kernel s' = [Pairs (map (\<lambda>p. (p, 0)) (arange 150 158)),
                                   Pairs (map (\<lambda>p. (p, 0)) (arange 201 210))]"
    by blast
  then show "outcome rerun_kernel
      (run flat_solver [Cell26, Cell30, Cell31, Cell32, Cell33] rerun_kernel) =
      Inr [Pairs [(150, 0), (151, 0), (152, 0), (153, 0), (154, 0), (155, 0), (156, 0), (157, 0)],
           Pairs [(201, 0), (202, 0), (203, 0), (204, 0), (205, 0), (206, 0), (207, 0), (208, 0),
                  (209, 0)]]"
    by (simp add: outcome_def arange_def)
  have "cell30 flat_solver (zero_kernel\<lparr>max_nonzeros := Some 7,
      out := out zero_kernel @ [Shown_ints (map2 (+) (arange 100 102) (arange 0 2)),
                                Shown_reals (logspace 2.1 2.4 20)]\<rparr>) =
      Inl (NameError ''l1_penalty_values'')"
    by (rule cell30_unbound) (simp add: zero_kernel_unbound)
  then have "run flat_solver search zero_kernel = Inl (NameError ''l1_penalty_values'')"
    by (simp add: search_def run_Cons cell26_def cell28_def cell29_def)
  then show "outcome zero_kernel (run flat_solver search zero_kernel) =
      Inl (NameError ''l1_penalty_values'')"
    by (simp add: outcome_def)
  from flat_search [OF rerun_kernel_inputs rerun_kernel_candidates rerun_kernel_length]
  show "\<exists>ls. outcome rerun_kernel (run flat_solver search rerun_kernel) = Inr ls"
    by (auto simp: outcome_def)
qed

end
